theory Spec2Isabelle
  imports Main "HOL-Library.Word" "HOL-Library.Signed_Division" "HOL-Library.Sublist"
begin

section \<open>Data model of the multipart downloader\<close>

text \<open>
  The Go structs of the package become records. Go's \<open>int64\<close> (and \<open>int\<close>, taken as
  64 bits wide) is modelled as \<open>int\<close>; every addition and subtraction of the source that
  could leave the 64-bit range is written with \<open>wrap64\<close>, the two's complement wrap-around.
  Go's \<open>/\<close> and \<open>%\<close> truncate towards zero: they are \<open>sdiv\<close> and \<open>smod\<close>.
\<close>

definition tmpFileSuffix :: string where
  "tmpFileSuffix = ''.part''"

definition fileWriteChunk :: nat where
  "fileWriteChunk = 2 ^ 12"

definition fileReadChunk :: nat where
  "fileReadChunk = 2 ^ 12"

record urlInfo =
  url :: string
  fileLength :: int
  etag :: string
  connSuccess :: bool
  statusCode :: int

record Chunk =
  Begin :: int
  End :: int

record MultiDownloader =
  urls :: "string list"
  nConns :: int
  timeout :: int
  fileLength :: int
  filename :: string
  partFilename :: string
  ETag :: string
  chunks :: "Chunk list"

definition NewMultiDownloader :: "string list \<Rightarrow> int \<Rightarrow> int \<Rightarrow> MultiDownloader" where
  "NewMultiDownloader us n t =
     \<lparr>urls = us, nConns = n, timeout = t, fileLength = 0, filename = '''',
      partFilename = '''', ETag = '''', chunks = []\<rparr>"

text \<open>Every way a call of the package can end other than by returning a value: the errors
  it returns, and the run-time panics of Go that its code can reach.\<close>

datatype failure =
    NoURLsProvided
  | FailedConnection string
  | NotSameFile
  | ExhaustedSources
  | IOError string
  | DigestMismatch string string
  | ReceiveBlocked
  | PanicDivideByZero
  | PanicMakeSliceLen
  | PanicMakeChanSize
  | PanicSliceBounds

definition wrap64 :: "int \<Rightarrow> int" where
  "wrap64 x = signed_take_bit 63 x"

section \<open>The chunk planner\<close>

text \<open>
  The loop of \<open>buildChunks\<close>, with the number of iterations still to run as its first
  argument. Each iteration appends one chunk; \<open>remainder\<close>, \<open>boundary\<close> and
  \<open>nextBoundary\<close> are the loop's variables.
\<close>

fun chunkLoop :: "nat \<Rightarrow> int \<Rightarrow> int \<Rightarrow> int \<Rightarrow> int \<Rightarrow> Chunk list" where
  "chunkLoop 0 remainder boundary nextBoundary chunkSize = []"
| "chunkLoop (Suc k) remainder boundary nextBoundary chunkSize =
     (let remainder' = (if remainder > 0 then wrap64 (remainder - 1) else remainder);
          nextBoundary' = (if remainder > 0 then wrap64 (nextBoundary + 1) else nextBoundary)
      in \<lparr>Begin = boundary, End = nextBoundary'\<rparr>
           # chunkLoop k remainder' nextBoundary' (wrap64 (nextBoundary' + chunkSize)) chunkSize)"

definition buildChunks :: "MultiDownloader \<Rightarrow> failure + MultiDownloader" where
  "buildChunks dldr =
     (let n = nConns dldr in
      if n = 0 then Inl PanicDivideByZero
      else
        let remainder = MultiDownloader.fileLength dldr smod n;
            exactNumerator = wrap64 (MultiDownloader.fileLength dldr - remainder);
            chunkSize = wrap64 (exactNumerator sdiv n)
        in if n < 0 then Inl PanicMakeSliceLen
           else Inr (dldr\<lparr>chunks := chunkLoop (nat n) remainder 0 chunkSize chunkSize\<rparr>))"

text \<open>The boundary before chunk \<open>j\<close> when the planner starts at \<open>b\<close> with chunk size
  \<open>q\<close> and \<open>r\<close> bytes of remainder to hand out: the closed form of the loop.\<close>

definition bnd :: "int \<Rightarrow> int \<Rightarrow> int \<Rightarrow> nat \<Rightarrow> int" where
  "bnd b q r j = b + int j * q + min (int j) r"

section \<open>Metadata reconciliation\<close>

text \<open>
  \<open>getHead\<close> is the closure of \<open>GatherInfo\<close> that probes one mirror. The network is an
  input of the model: \<open>None\<close> is a HEAD request that returned an error, \<open>Some r\<close> a response
  with its status code and headers. \<open>strconv.ParseInt\<close> belongs to Go's library and is a
  parameter (\<open>None\<close> is a call that returned an error).
\<close>

record Response =
  StatusCode :: int
  Header :: "string \<rightharpoonup> string"

definition Header_Get :: "(string \<rightharpoonup> string) \<Rightarrow> string \<Rightarrow> string" where
  "Header_Get h key = (case h key of None \<Rightarrow> '''' | Some v \<Rightarrow> v)"

definition getHead :: "(string \<Rightarrow> int option) \<Rightarrow> string \<Rightarrow> Response option \<Rightarrow> urlInfo" where
  "getHead ParseInt u resp =
     (case resp of
        None \<Rightarrow> \<lparr>url = u, fileLength = 0, etag = '''', connSuccess = False, statusCode = 0\<rparr>
      | Some r \<Rightarrow>
          let flen = (case ParseInt (Header_Get (Header r) ''Content-Length'') of
                        None \<Rightarrow> 0 | Some v \<Rightarrow> v);
              et = Header_Get (Header r) ''Etag''
          in \<lparr>url = u, fileLength = flen, etag = et, connSuccess = True,
              statusCode = StatusCode r\<rparr>)"

text \<open>
  The loop that receives one result per URL from the channel, in the order of arrival, and
  returns at the first failed probe. Its first argument counts the results still awaited;
  a channel that delivers fewer results leaves the receive blocked.
\<close>

fun gatherResults :: "nat \<Rightarrow> urlInfo list \<Rightarrow> failure + urlInfo list" where
  "gatherResults 0 incoming = Inr []"
| "gatherResults (Suc k) [] = Inl ReceiveBlocked"
| "gatherResults (Suc k) (r # incoming) =
     (if \<not> connSuccess r \<or> statusCode r \<noteq> 200 then Inl (FailedConnection (url r))
      else (case gatherResults k incoming of
              Inl e \<Rightarrow> Inl e
            | Inr rs \<Rightarrow> Inr (r # rs)))"

text \<open>The agreement loop over \<open>resArray[1:]\<close>: \<open>False\<close> is its early return with an error.\<close>

fun sourcesAgree :: "int \<Rightarrow> string \<Rightarrow> urlInfo list \<Rightarrow> bool" where
  "sourcesAgree commonFileLength commonEtag [] = True"
| "sourcesAgree commonFileLength commonEtag (r # rs) =
     (if urlInfo.fileLength r \<noteq> commonFileLength
         \<or> (length (etag r) \<noteq> 0 \<and> etag r \<noteq> commonEtag)
      then False
      else sourcesAgree commonFileLength commonEtag rs)"

text \<open>Go's slice expression \<open>s[lo:hi]\<close> on a string, with its bounds check.\<close>

definition go_slice :: "string \<Rightarrow> int \<Rightarrow> int \<Rightarrow> failure + string" where
  "go_slice s lo hi =
     (if 0 \<le> lo \<and> lo \<le> hi \<and> hi \<le> int (length s)
      then Inr (take (nat (hi - lo)) (drop (nat lo) s))
      else Inl PanicSliceBounds)"

text \<open>
  \<open>path.Split\<close> of Go's library cuts a path after its last slash
  (\<open>i := LastIndex(path, "/"); return path[:i+1], path[i+1:]\<close>). \<open>url.Parse\<close> is a
  parameter; of the URL it returns only the field \<open>Path\<close> is read.
\<close>

record URL =
  Path :: string

fun lastIndexFrom :: "char \<Rightarrow> string \<Rightarrow> int \<Rightarrow> int \<Rightarrow> int" where
  "lastIndexFrom c [] i best = best"
| "lastIndexFrom c (x # xs) i best = lastIndexFrom c xs (i + 1) (if x = c then i else best)"

definition LastIndex :: "string \<Rightarrow> char \<Rightarrow> int" where
  "LastIndex s c = lastIndexFrom c s 0 (- 1)"

definition path_Split :: "string \<Rightarrow> string \<times> string" where
  "path_Split p = (let i = LastIndex p CHR ''/'' in (take (nat (i + 1)) p, drop (nat (i + 1)) p))"

definition urlToFilename :: "(string \<Rightarrow> URL option) \<Rightarrow> string \<Rightarrow> string" where
  "urlToFilename url_Parse urlStr =
     (case url_Parse urlStr of
        None \<Rightarrow> ''downloaded-file''
      | Some u \<Rightarrow> snd (path_Split (Path u)))"

text \<open>
  \<open>GatherInfo\<close> on the results \<open>results\<close> that the probes send, in the order of arrival.
  It returns the error or the chunk table, and the downloader as the call leaves it.
\<close>

definition GatherInfo ::
  "(string \<Rightarrow> URL option) \<Rightarrow> MultiDownloader \<Rightarrow> urlInfo list
     \<Rightarrow> (failure + Chunk list) \<times> MultiDownloader" where
  "GatherInfo url_Parse dldr results =
     (if length (urls dldr) = 0 then (Inl NoURLsProvided, dldr)
      else
        (case gatherResults (length (urls dldr)) results of
           Inl e \<Rightarrow> (Inl e, dldr)
         | Inr resArray \<Rightarrow>
             (let commonFileLength = urlInfo.fileLength (resArray ! 0);
                  commonEtag = etag (resArray ! 0)
              in if \<not> sourcesAgree commonFileLength commonEtag (tl resArray)
                 then (Inl NotSameFile, dldr)
                 else
                   (let dldr1 = dldr\<lparr>MultiDownloader.fileLength := commonFileLength\<rparr>;
                        stripped =
                          (if commonEtag \<noteq> []
                           then (case go_slice commonEtag 1 (int (length commonEtag) - 1) of
                                   Inl p \<Rightarrow> Inl p
                                 | Inr t \<Rightarrow> Inr (dldr1\<lparr>ETag := t\<rparr>))
                           else Inr dldr1)
                    in (case stripped of
                          Inl p \<Rightarrow> (Inl p, dldr1)
                        | Inr dldr2 \<Rightarrow>
                            (let dldr3 = dldr2\<lparr>filename :=
                                           urlToFilename url_Parse (url (resArray ! 0))\<rparr>;
                                 dldr4 = dldr3\<lparr>partFilename := filename dldr3 @ tmpFileSuffix\<rparr>
                             in (case buildChunks dldr4 of
                                   Inl p \<Rightarrow> (Inl p, dldr4)
                                 | Inr dldr5 \<Rightarrow> (Inr (chunks dldr5), dldr5))))))))"

section \<open>The staging file\<close>

text \<open>
  The file system is part of the state: the files that exist, with their contents, the
  paths at which the operating system lets a file be created, and the sizes to which it lets
  the file at a path be resized (a file system has a size limit, and can be full). Creating
  a file at the empty path fails; \<open>Truncate\<close> rejects a negative size and every size that
  the operating system refuses. Of the metadata that \<open>Stat\<close> returns, the size is kept.
\<close>

type_synonym byte = "8 word"

record os_state =
  files :: "string \<rightharpoonup> byte list"
  creatable :: "string \<Rightarrow> bool"
  resizable :: "string \<Rightarrow> int \<Rightarrow> bool"

record FileInfo =
  Size :: int

definition os_Create :: "os_state \<Rightarrow> string \<Rightarrow> failure + os_state" where
  "os_Create os p =
     (if p = '''' \<or> \<not> creatable os p then Inl (IOError p)
      else Inr (os\<lparr>files := (files os)(p \<mapsto> [])\<rparr>))"

definition file_Truncate :: "os_state \<Rightarrow> string \<Rightarrow> int \<Rightarrow> failure + os_state" where
  "file_Truncate os p newSize =
     (case files os p of
        None \<Rightarrow> Inl (IOError p)
      | Some content \<Rightarrow>
          if newSize < 0 \<or> \<not> resizable os p newSize then Inl (IOError p)
          else Inr (os\<lparr>files := (files os)(p \<mapsto>
                 take (nat newSize) content @ replicate (nat newSize - length content) 0)\<rparr>))"

definition file_Stat :: "os_state \<Rightarrow> string \<Rightarrow> failure + FileInfo" where
  "file_Stat os p =
     (case files os p of
        None \<Rightarrow> Inl (IOError p)
      | Some content \<Rightarrow> Inr \<lparr>Size = int (length content)\<rparr>)"

definition SetupFile ::
  "MultiDownloader \<Rightarrow> string \<Rightarrow> os_state \<Rightarrow> (failure + FileInfo) \<times> MultiDownloader \<times> os_state" where
  "SetupFile dldr name os =
     (let dldr1 = (if name \<noteq> ''''
                   then dldr\<lparr>filename := name, partFilename := name @ tmpFileSuffix\<rparr>
                   else dldr)
      in case os_Create os (partFilename dldr1) of
           Inl err \<Rightarrow> (Inl err, dldr1, os)
         | Inr os1 \<Rightarrow>
             let os2 = (case file_Truncate os1 (partFilename dldr1)
                               (MultiDownloader.fileLength dldr1) of
                          Inl err \<Rightarrow> os1
                        | Inr os' \<Rightarrow> os')
             in (file_Stat os2 (partFilename dldr1), dldr1, os2))"

section \<open>The coordinator of the download\<close>

text \<open>
  The workers are the environment of the coordinator loop of \<open>Download\<close>: what the loop
  sees of them is the sequence of signals on the channels \<open>done\<close> and \<open>failed\<close>, in the
  order in which the \<open>select\<close> receives them. With no signal left and chunks remaining,
  the \<open>select\<close> blocks.
\<close>

datatype event = Done | Failed

fun coordinate :: "int \<Rightarrow> int \<Rightarrow> int \<Rightarrow> event list \<Rightarrow> failure + unit" where
  "coordinate n remainingChunks failedCount [] =
     (if remainingChunks > 0 then Inl ReceiveBlocked else Inr ())"
| "coordinate n remainingChunks failedCount (e # evs) =
     (if remainingChunks > 0 then
        (case e of
           Done \<Rightarrow> coordinate n (remainingChunks - 1) failedCount evs
         | Failed \<Rightarrow>
             if failedCount + 1 \<ge> n then Inl ExhaustedSources
             else coordinate n remainingChunks (failedCount + 1) evs)
      else Inr ())"

text \<open>\<open>Download\<close> as far as the coordinator goes: the token channel is made with
  capacity \<open>nConns\<close>, which panics when that is negative; the staging file must open; then the
  loop runs; \<open>Inr (old, new)\<close> is the call \<open>os.Rename(old, new)\<close> that ends a successful
  session, whose own result \<open>Download\<close> returns.\<close>

definition Download ::
  "MultiDownloader \<Rightarrow> os_state \<Rightarrow> event list \<Rightarrow> failure + string \<times> string" where
  "Download dldr os evs =
     (if nConns dldr < 0 then Inl PanicMakeChanSize
      else
        (case files os (partFilename dldr) of
           None \<Rightarrow> Inl (IOError (partFilename dldr))
         | Some content \<Rightarrow>
             (case coordinate (nConns dldr) (nConns dldr) 0 evs of
                Inl e \<Rightarrow> Inl e
              | Inr u \<Rightarrow> Inr (partFilename dldr, filename dldr))))"

definition countEv :: "event \<Rightarrow> event list \<Rightarrow> int" where
  "countEv e evs = int (length (filter (\<lambda>x. x = e) evs))"

section \<open>Checking a digest\<close>

text \<open>
  The read loop of \<open>CheckSHA256\<close> and \<open>CheckMD5\<close>: blocks of \<open>fileReadChunk\<close> bytes are
  read until a read returns no byte, and each is written to the hash. The state of the hash
  is the bytes written so far; the digest function itself (\<open>crypto/sha256\<close>,
  \<open>crypto/md5\<close>) is a parameter. A read is taken to fill the buffer while enough
  bytes remain; read errors are not modelled.
\<close>

function hashFile :: "byte list \<Rightarrow> byte list \<Rightarrow> byte list" where
  "hashFile rest written =
     (let buf = take fileReadChunk rest; n = length buf
      in if n = 0 then written
         else hashFile (drop fileReadChunk rest) (written @ buf))"
  by pat_completeness auto
termination
  by (relation "measure (\<lambda>(rest, written). length rest)") (auto simp: fileReadChunk_def)

declare hashFile.simps [simp del]

text \<open>\<open>fmt.Sprintf("%x", bytes)\<close>: two lowercase hexadecimal digits for each byte.\<close>

definition hexDigit :: "nat \<Rightarrow> char" where
  "hexDigit n = ''0123456789abcdef'' ! n"

definition hexByte :: "byte \<Rightarrow> string" where
  "hexByte b = [hexDigit (unat b div 16), hexDigit (unat b mod 16)]"

definition Sprintf_x :: "byte list \<Rightarrow> string" where
  "Sprintf_x bs = concat (map hexByte bs)"

definition CheckSHA256 ::
  "(byte list \<Rightarrow> byte list) \<Rightarrow> MultiDownloader \<Rightarrow> os_state \<Rightarrow> string \<Rightarrow> failure option" where
  "CheckSHA256 sha256_Sum dldr os sha256hash =
     (case files os (filename dldr) of
        None \<Rightarrow> Some (IOError (filename dldr))
      | Some content \<Rightarrow>
          let computedSHA256bytes = sha256_Sum (hashFile content []);
              computedSHA256 = Sprintf_x computedSHA256bytes
          in if computedSHA256 \<noteq> sha256hash
             then Some (DigestMismatch sha256hash computedSHA256)
             else None)"

definition CheckMD5 ::
  "(byte list \<Rightarrow> byte list) \<Rightarrow> MultiDownloader \<Rightarrow> os_state \<Rightarrow> string \<Rightarrow> failure option" where
  "CheckMD5 md5_Sum dldr os md5sum =
     (case files os (filename dldr) of
        None \<Rightarrow> Some (IOError (filename dldr))
      | Some content \<Rightarrow>
          let computedMD5SUMbytes = md5_Sum (hashFile content []);
              computedMD5SUM = Sprintf_x computedMD5SUMbytes
          in if computedMD5SUM \<noteq> md5sum
             then Some (DigestMismatch md5sum computedMD5SUM)
             else None)"

section \<open>Notions used to state the properties\<close>

text \<open>A probe result that passes the test of the gathering loop.\<close>

definition probeOK :: "urlInfo \<Rightarrow> bool" where
  "probeOK r = (connSuccess r \<and> statusCode r = 200)"

text \<open>A tag between double quotes, as an \<open>Etag\<close> header carries it.\<close>

definition quoted :: "string \<Rightarrow> string" where
  "quoted s = CHR 0x22 # s @ [CHR 0x22]"

text \<open>Equality of two strings up to the case of ASCII letters: what a comparison of
  hexadecimal digests that ignores case would decide. The code has no such comparison.\<close>

definition asciiLower :: "char \<Rightarrow> char" where
  "asciiLower c =
     (case map_of (zip ''ABCDEFGHIJKLMNOPQRSTUVWXYZ'' ''abcdefghijklmnopqrstuvwxyz'') c of
        None \<Rightarrow> c
      | Some l \<Rightarrow> l)"

definition equalFold :: "string \<Rightarrow> string \<Rightarrow> bool" where
  "equalFold s t = (map asciiLower s = map asciiLower t)"

section \<open>Concrete inputs\<close>

text \<open>
  The library functions that the model takes as parameters need a value at the concrete
  inputs below. \<open>simpleUrlParse\<close> agrees with \<open>url.Parse\<close> on the strings
  \<open>http://host/path\<close> made of letters, digits, dots, dashes, underscores and slashes (the
  path starts at the first slash after the host), and returns an error on every other
  string, among them the strings with a space in the host, which \<open>url.Parse\<close> rejects too.
  \<open>decimalParseInt\<close> agrees with \<open>strconv.ParseInt(s, 0, 64)\<close> on the empty string (an
  error) and on the decimal numerals without sign and leading zero. \<open>sha256AtEmpty\<close> and
  \<open>md5AtEmpty\<close> hold the SHA-256 and MD5 digests of the empty input, the only input at
  which the examples apply them.
\<close>

definition plainChar :: "char \<Rightarrow> bool" where
  "plainChar c = (c \<in> set ''abcdefghijklmnopqrstuvwxyzABCDEFGHIJKLMNOPQRSTUVWXYZ0123456789.-_/'')"

definition simpleUrlParse :: "string \<Rightarrow> URL option" where
  "simpleUrlParse s =
     (if take 7 s = ''http://'' \<and> list_all plainChar (drop 7 s)
      then Some \<lparr>Path = dropWhile (\<lambda>c. c \<noteq> CHR ''/'') (drop 7 s)\<rparr>
      else None)"

fun digitsValue :: "string \<Rightarrow> int \<Rightarrow> int option" where
  "digitsValue [] acc = Some acc"
| "digitsValue (c # cs) acc =
     (if c \<in> set ''0123456789'' then digitsValue cs (10 * acc + (int (of_char c) - 48))
      else None)"

definition decimalParseInt :: "string \<Rightarrow> int option" where
  "decimalParseInt s =
     (if s = [] \<or> (hd s = CHR ''0'' \<and> 1 < length s) then None
      else (case digitsValue s 0 of
              None \<Rightarrow> None
            | Some v \<Rightarrow> if v < 2 ^ 63 then Some v else None))"

definition sha256OfEmpty :: "byte list" where
  "sha256OfEmpty =
     [227, 176, 196, 66, 152, 252, 28, 20, 154, 251, 244, 200, 153, 111, 185, 36,
      39, 174, 65, 228, 100, 155, 147, 76, 164, 149, 153, 27, 120, 82, 184, 85]"

definition md5OfEmpty :: "byte list" where
  "md5OfEmpty =
     [212, 29, 140, 217, 143, 0, 178, 4, 233, 128, 9, 152, 236, 248, 66, 126]"

definition sha256AtEmpty :: "byte list \<Rightarrow> byte list" where
  "sha256AtEmpty input = sha256OfEmpty"

definition md5AtEmpty :: "byte list \<Rightarrow> byte list" where
  "md5AtEmpty input = md5OfEmpty"

text \<open>A file of 10 bytes for 3 workers.\<close>

definition planExample :: MultiDownloader where
  "planExample = (NewMultiDownloader [''http://a/f''] 3 0)\<lparr>MultiDownloader.fileLength := 10\<rparr>"

text \<open>A session of 3 workers whose names are set, with and without an agreed length, a
  file system that holds its staging file, and one that holds its final file, empty. Both
  file systems let any file be created and no file grow beyond \<open>2 ^ 40\<close> bytes.\<close>

definition stagedExample :: MultiDownloader where
  "stagedExample =
     (NewMultiDownloader [''http://a/f''] 3 0)\<lparr>filename := ''f'', partFilename := ''f.part''\<rparr>"

definition setupExample :: MultiDownloader where
  "setupExample = stagedExample\<lparr>MultiDownloader.fileLength := 10\<rparr>"

definition stagedOs :: os_state where
  "stagedOs =
     \<lparr>files = [''f.part'' \<mapsto> []], creatable = (\<lambda>p. True),
      resizable = (\<lambda>p n. n \<le> 2 ^ 40)\<rparr>"

definition emptyFileOs :: os_state where
  "emptyFileOs =
     \<lparr>files = [''f'' \<mapsto> []], creatable = (\<lambda>p. True),
      resizable = (\<lambda>p n. n \<le> 2 ^ 40)\<rparr>"

text \<open>Sessions over three and two mirrors, and probe results in their order of arrival:
  \<open>okProbe\<close> is a result that connected with status 200.\<close>

definition okProbe :: "string \<Rightarrow> int \<Rightarrow> string \<Rightarrow> urlInfo" where
  "okProbe u len tag =
     \<lparr>url = u, fileLength = len, etag = tag, connSuccess = True, statusCode = 200\<rparr>"

definition threeMirrors :: MultiDownloader where
  "threeMirrors =
     NewMultiDownloader [''http://a/f.iso'', ''http://b/f.iso'', ''http://c/f.iso''] 2 0"

definition twoMirrors :: MultiDownloader where
  "twoMirrors = NewMultiDownloader [''http://a/f.iso'', ''http://b/f.iso''] 2 0"

definition twoNames :: MultiDownloader where
  "twoNames = NewMultiDownloader [''http://a/f.iso'', ''http://b/g.iso''] 2 0"

definition badMiddle :: "urlInfo list" where
  "badMiddle = [okProbe ''http://b/f.iso'' 100 [],
                (okProbe ''http://a/f.iso'' 100 [])\<lparr>statusCode := 404\<rparr>,
                okProbe ''http://c/f.iso'' 100 []]"

definition agreeingProbes :: "urlInfo list" where
  "agreeingProbes = [okProbe ''http://b/f.iso'' 100 (quoted ''abc''),
                     okProbe ''http://a/f.iso'' 100 [],
                     okProbe ''http://c/f.iso'' 100 (quoted ''abc'')]"

definition unquotedProbes :: "urlInfo list" where
  "unquotedProbes = [okProbe ''http://b/f.iso'' 100 ''abc'',
                     okProbe ''http://a/f.iso'' 100 [],
                     okProbe ''http://c/f.iso'' 100 ''abc'']"

definition emptyFirstProbes :: "urlInfo list" where
  "emptyFirstProbes = [okProbe ''http://a/f.iso'' 100 [],
                       okProbe ''http://b/f.iso'' 100 (quoted ''abc''),
                       okProbe ''http://c/f.iso'' 100 (quoted ''abc'')]"

definition weakTagProbes :: "urlInfo list" where
  "weakTagProbes = [okProbe ''http://b/f.iso'' 100 (''W/'' @ quoted ''abc''),
                    okProbe ''http://a/f.iso'' 100 [],
                    okProbe ''http://c/f.iso'' 100 (''W/'' @ quoted ''abc'')]"

definition singleCharProbes :: "urlInfo list" where
  "singleCharProbes = [okProbe ''http://b/f.iso'' 100 ''a'',
                       okProbe ''http://a/f.iso'' 100 [],
                       okProbe ''http://c/f.iso'' 100 ''a'']"

definition secondMirrorFirst :: "urlInfo list" where
  "secondMirrorFirst = [okProbe ''http://b/g.iso'' 100 [], okProbe ''http://a/f.iso'' 100 []]"

definition noLengthResponse :: Response where
  "noLengthResponse = \<lparr>StatusCode = 200, Header = [''Etag'' \<mapsto> quoted ''abc'']\<rparr>"

section \<open>Properties of the chunk planner\<close>

lemma wrap64_id: "- (2 ^ 63) \<le> x \<Longrightarrow> x < 2 ^ 63 \<Longrightarrow> wrap64 x = x"
  by (simp add: wrap64_def signed_take_bit_int_eq_self)

lemma chunkLoop_closed:
  "0 \<le> q \<Longrightarrow> 0 \<le> r \<Longrightarrow> r < 2 ^ 63 \<Longrightarrow> 0 \<le> b \<Longrightarrow> bnd b q r k < 2 ^ 63 \<Longrightarrow>
   chunkLoop k r b (wrap64 (b + q)) q =
     map (\<lambda>j. \<lparr>Begin = bnd b q r j, End = bnd b q r (Suc j)\<rparr>) [0..<k]"
proof (induction k arbitrary: r b)
  case 0
  then show ?case by simp
next
  case (Suc k)
  have qk: "0 \<le> int k * q" using Suc.prems(1) by simp
  have unf: "bnd b q r (Suc k) = b + q + int k * q + min (int k + 1) r"
    by (simp add: bnd_def algebra_simps)
  have le: "b + q + min 1 r \<le> bnd b q r (Suc k)"
    unfolding unf using Suc.prems(2) qk by (simp add: min_def)
  have w1: "wrap64 (b + q) = b + q"
    using Suc.prems le by (intro wrap64_id) (auto simp: min_def split: if_splits)
  have w2: "0 < r \<Longrightarrow> wrap64 (b + q + 1) = b + q + 1"
    using Suc.prems le by (intro wrap64_id) (auto simp: min_def split: if_splits)
  have w3: "0 < r \<Longrightarrow> wrap64 (r - 1) = r - 1"
    using Suc.prems by (intro wrap64_id) auto
  define r' where "r' = r - min 1 r"
  define b' where "b' = b + q + min 1 r"
  have shift: "bnd b' q r' j = bnd b q r (Suc j)" for j
    using Suc.prems(2) by (auto simp: bnd_def r'_def b'_def algebra_simps min_def)
  have IH: "chunkLoop k r' b' (wrap64 (b' + q)) q =
     map (\<lambda>j. \<lparr>Begin = bnd b' q r' j, End = bnd b' q r' (Suc j)\<rparr>) [0..<k]"
    using Suc.prems shift[of k] by (intro Suc.IH) (auto simp: r'_def b'_def min_def)
  have b0: "bnd b q r 0 = b" using Suc.prems(2) by (simp add: bnd_def)
  have b1: "bnd b q r (Suc 0) = b'" using Suc.prems(2) by (simp add: bnd_def b'_def)
  have "chunkLoop (Suc k) r b (wrap64 (b + q)) q =
      \<lparr>Begin = b, End = b'\<rparr> # chunkLoop k r' b' (wrap64 (b' + q)) q"
    using w1 w2 w3 Suc.prems(2) by (auto simp: Let_def r'_def b'_def min_def)
  also have "\<dots> = map (\<lambda>j. \<lparr>Begin = bnd b q r j, End = bnd b q r (Suc j)\<rparr>) [0..<Suc k]"
    unfolding IH shift by (simp add: upt_conv_Cons b0 b1 map_Suc_upt[symmetric] del: upt_Suc)
  finally show ?case .
qed

lemma buildChunks_closed:
  assumes "0 \<le> MultiDownloader.fileLength d" "MultiDownloader.fileLength d < 2 ^ 63" "1 \<le> nConns d"
  shows "buildChunks d = Inr (d\<lparr>chunks :=
           map (\<lambda>j. \<lparr>Begin = bnd 0 (MultiDownloader.fileLength d div nConns d) (MultiDownloader.fileLength d mod nConns d) j,
                      End = bnd 0 (MultiDownloader.fileLength d div nConns d) (MultiDownloader.fileLength d mod nConns d) (Suc j)\<rparr>)
               [0..<nat (nConns d)]\<rparr>)"
proof -
  define L where "L = MultiDownloader.fileLength d"
  define n where "n = nConns d"
  define q where "q = L div n"
  define r where "r = L mod n"
  have L: "0 \<le> L" "L < 2 ^ 63" and n: "1 \<le> n" using assms by (simp_all add: L_def n_def)
  have r: "0 \<le> r" "r < n" "r \<le> L" using L n by (simp_all add: r_def zmod_le_nonneg_dividend)
  have q: "0 \<le> q" using L n by (simp add: q_def pos_imp_zdiv_nonneg_iff)
  have Lqr: "L = int (nat n) * q + r" using n by (simp add: q_def r_def)
  have sm: "L smod n = r" using L n by (simp add: smod_int_alt_def r_def sgn_if)
  have w1: "wrap64 (L - r) = L - r" using L r by (intro wrap64_id) auto
  have sd: "(L - r) sdiv n = q"
  proof -
    have "(L - r) div n = q" unfolding q_def r_def by (simp add: minus_mod_eq_mult_div)
    moreover have "0 \<le> L - r" using r by simp
    ultimately show ?thesis using n by (auto simp: signed_divide_int_def sgn_if)
  qed
  have qL: "q \<le> L"
  proof -
    have "q * 1 \<le> q * n" using q n by (intro mult_left_mono) auto
    then show ?thesis using Lqr r n by (simp add: mult.commute)
  qed
  have w2: "wrap64 q = q" using q qL L by (intro wrap64_id) auto
  have bn: "bnd 0 q r (nat n) = L" using Lqr r n by (simp add: bnd_def min_def)
  have "chunkLoop (nat n) r 0 (wrap64 (0 + q)) q =
     map (\<lambda>j. \<lparr>Begin = bnd 0 q r j, End = bnd 0 q r (Suc j)\<rparr>) [0..<nat n]"
    using q r n L bn by (intro chunkLoop_closed) auto
  then have "chunkLoop (nat n) r 0 q q =
     map (\<lambda>j. \<lparr>Begin = bnd 0 q r j, End = bnd 0 q r (Suc j)\<rparr>) [0..<nat n]"
    by (simp add: w2)
  then show ?thesis
    using n sm w1 sd w2
    by (simp add: buildChunks_def Let_def L_def[symmetric] n_def[symmetric] q_def[symmetric] r_def[symmetric])
qed

lemma bnd_size: "0 \<le> r \<Longrightarrow> bnd b q r (Suc j) - bnd b q r j = (if int j < r then q + 1 else q)"
  by (auto simp: bnd_def algebra_simps min_def)

lemma bnd_mono: "0 \<le> q \<Longrightarrow> 0 \<le> r \<Longrightarrow> i \<le> j \<Longrightarrow> bnd b q r i \<le> bnd b q r j"
proof (induction j)
  case 0 then show ?case by simp
next
  case (Suc j)
  have "bnd b q r j \<le> bnd b q r (Suc j)" using bnd_size[of r b q j] Suc.prems by (auto split: if_splits)
  then show ?case using Suc by (cases "i = Suc j") auto
qed

text \<open>
  Claim C1. For every file length \<open>\<ge> 0\<close> (an \<open>int64\<close>) and every worker count
  \<open>nConns \<ge> 1\<close>, \<open>buildChunks\<close> returns and stores exactly \<open>nConns\<close> chunks; the first
  begins at 0, the last ends at the file length, each chunk ends where the next begins, no
  two chunks overlap, chunk \<open>i\<close> has \<open>fileLength div nConns + 1\<close> bytes when
  \<open>i < fileLength mod nConns\<close> and \<open>fileLength div nConns\<close> bytes otherwise, and any two
  sizes differ by at most one byte.
\<close>

theorem buildChunks_partition:
  assumes "0 \<le> MultiDownloader.fileLength d" and "MultiDownloader.fileLength d < 2 ^ 63"
    and "1 \<le> nConns d"
  shows "\<exists>cs. buildChunks d = Inr (d\<lparr>chunks := cs\<rparr>)
           \<and> length cs = nat (nConns d)
           \<and> Begin (cs ! 0) = 0
           \<and> End (last cs) = MultiDownloader.fileLength d
           \<and> (\<forall>i. Suc i < length cs \<longrightarrow> End (cs ! i) = Begin (cs ! Suc i))
           \<and> (\<forall>i j. i < j \<and> j < length cs \<longrightarrow> End (cs ! i) \<le> Begin (cs ! j))
           \<and> (\<forall>i. i < length cs \<longrightarrow>
                 End (cs ! i) - Begin (cs ! i) =
                   (if int i < MultiDownloader.fileLength d mod nConns d
                    then MultiDownloader.fileLength d div nConns d + 1
                    else MultiDownloader.fileLength d div nConns d))
           \<and> (\<forall>i j. i < length cs \<and> j < length cs \<longrightarrow>
                 \<bar>(End (cs ! i) - Begin (cs ! i)) - (End (cs ! j) - Begin (cs ! j))\<bar> \<le> 1)"
proof -
  define L where "L = MultiDownloader.fileLength d"
  define n where "n = nConns d"
  define q where "q = L div n"
  define r where "r = L mod n"
  define cs where "cs = map (\<lambda>j. \<lparr>Begin = bnd 0 q r j, End = bnd 0 q r (Suc j)\<rparr>) [0..<nat n]"
  have L: "0 \<le> L" and n: "1 \<le> n" using assms by (simp_all add: L_def n_def)
  have r: "0 \<le> r" "r < n" using L n by (simp_all add: r_def)
  have q: "0 \<le> q" using L n by (simp add: q_def pos_imp_zdiv_nonneg_iff)
  have Lqr: "L = int (nat n) * q + r" using n by (simp add: q_def r_def)
  have len: "length cs = nat n" by (simp add: cs_def)
  have nth: "cs ! i = \<lparr>Begin = bnd 0 q r i, End = bnd 0 q r (Suc i)\<rparr>" if "i < nat n" for i
    using that by (simp add: cs_def)
  have sz: "End (cs ! i) - Begin (cs ! i) = (if int i < r then q + 1 else q)" if "i < nat n" for i
    using that r(1) by (simp add: nth bnd_size)
  have c1: "buildChunks d = Inr (d\<lparr>chunks := cs\<rparr>)"
    using buildChunks_closed[OF assms] by (simp add: cs_def L_def n_def q_def r_def)
  have c3: "Begin (cs ! 0) = 0" using n r(1) by (simp add: nth bnd_def)
  have c4: "End (last cs) = L"
  proof -
    have "cs \<noteq> []" using n len by auto
    then have "last cs = cs ! (nat n - 1)" using len by (simp add: last_conv_nth)
    also have "\<dots> = \<lparr>Begin = bnd 0 q r (nat n - 1), End = bnd 0 q r (Suc (nat n - 1))\<rparr>"
      using n by (intro nth) auto
    finally have "End (last cs) = bnd 0 q r (nat n)" using n by simp
    also have "\<dots> = L" using Lqr r n by (simp add: bnd_def min_def)
    finally show ?thesis .
  qed
  have c5: "\<forall>i. Suc i < length cs \<longrightarrow> End (cs ! i) = Begin (cs ! Suc i)"
    by (simp add: len nth)
  have c6: "\<forall>i j. i < j \<and> j < length cs \<longrightarrow> End (cs ! i) \<le> Begin (cs ! j)"
  proof (intro allI impI)
    fix i j assume "i < j \<and> j < length cs"
    then have ij: "Suc i \<le> j" "i < nat n" "j < nat n" using len by auto
    show "End (cs ! i) \<le> Begin (cs ! j)"
      using bnd_mono[OF q r(1) ij(1), of 0] by (simp add: nth ij)
  qed
  have c7: "\<forall>i. i < length cs \<longrightarrow> End (cs ! i) - Begin (cs ! i) = (if int i < r then q + 1 else q)"
    using sz len by simp
  have c8: "\<forall>i j. i < length cs \<and> j < length cs \<longrightarrow>
                 \<bar>(End (cs ! i) - Begin (cs ! i)) - (End (cs ! j) - Begin (cs ! j))\<bar> \<le> 1"
    using sz len by simp
  show ?thesis
    using c1 len c3 c4 c5 c6 c7 c8 unfolding L_def n_def q_def r_def by blast
qed

theorem buildChunks_partition_witness:
  "0 \<le> MultiDownloader.fileLength planExample
   \<and> MultiDownloader.fileLength planExample < 2 ^ 63
   \<and> 1 \<le> nConns planExample
   \<and> (\<exists>cs. buildChunks planExample = Inr (planExample\<lparr>chunks := cs\<rparr>)
          \<and> length cs = 3 \<and> Begin (cs ! 0) = 0 \<and> End (last cs) = 10)"
proof -
  have h: "0 \<le> MultiDownloader.fileLength planExample"
    "MultiDownloader.fileLength planExample < 2 ^ 63" "1 \<le> nConns planExample"
    by (simp_all add: planExample_def NewMultiDownloader_def)
  from buildChunks_partition[OF h] obtain cs where
    "buildChunks planExample = Inr (planExample\<lparr>chunks := cs\<rparr>)"
    "length cs = nat (nConns planExample)" "Begin (cs ! 0) = 0"
    "End (last cs) = MultiDownloader.fileLength planExample"
    by blast
  then have "buildChunks planExample = Inr (planExample\<lparr>chunks := cs\<rparr>)
          \<and> length cs = 3 \<and> Begin (cs ! 0) = 0 \<and> End (last cs) = 10"
    by (simp add: planExample_def NewMultiDownloader_def)
  then show ?thesis using h by blast
qed

section \<open>Properties of the coordinator\<close>

lemma countEv_simps [simp]:
  "countEv e [] = 0"
  "countEv e (x # xs) = (if x = e then 1 else 0) + countEv e xs"
  by (simp_all add: countEv_def)

lemma countEv_nonneg [simp]: "0 \<le> countEv e xs"
  by (simp add: countEv_def)

lemma coordinate_blocked:
  "0 \<le> r \<Longrightarrow> f < n \<Longrightarrow>
   (coordinate n r f evs = Inl ReceiveBlocked) = (f + countEv Failed evs < n \<and> countEv Done evs < r)"
proof (induction evs arbitrary: r f)
  case Nil
  then show ?case by simp
next
  case (Cons e evs)
  show ?case
  proof (cases e)
    case Done
    then show ?thesis
      using Cons.prems Cons.IH[of "r - 1" f] countEv_nonneg[of Done evs] countEv_nonneg[of Failed evs]
      by (auto simp del: countEv_nonneg)
  next
    case Failed
    then show ?thesis
      using Cons.prems Cons.IH[of r "f + 1"] countEv_nonneg[of Done evs] countEv_nonneg[of Failed evs]
      by (auto simp del: countEv_nonneg)
  qed
qed

lemma coordinate_abort:
  "0 \<le> r \<Longrightarrow> f < n \<Longrightarrow>
   (coordinate n r f evs = Inl ExhaustedSources) =
     (\<exists>p. prefix p evs \<and> f + countEv Failed p = n \<and> countEv Done p < r)"
proof (induction evs arbitrary: r f)
  case Nil
  then show ?case by simp
next
  case (Cons e evs)
  show ?case
  proof (cases "0 < r")
    case False
    then have "r = 0" using Cons.prems by simp
    then show ?thesis using countEv_nonneg[of Done] by (auto simp del: countEv_nonneg simp: not_less)
  next
    case r: True
    show ?thesis
    proof (cases e)
      case Done
      have "(\<exists>p. prefix p (Done # evs) \<and> f + countEv Failed p = n \<and> countEv Done p < r)
          = (\<exists>p. prefix p evs \<and> f + countEv Failed p = n \<and> countEv Done p < r - 1)"
        using Cons.prems r by (auto simp: prefix_Cons)
      then show ?thesis using Done r Cons.prems Cons.IH[of "r - 1" f] by simp
    next
      case Failed
      show ?thesis
      proof (cases "n \<le> f + 1")
        case True
        then have "f + 1 = n" using Cons.prems by simp
        then have "prefix [Failed] (Failed # evs) \<and> f + countEv Failed [Failed] = n \<and> countEv Done [Failed] < r"
          using r by simp
        then have "\<exists>p. prefix p (Failed # evs) \<and> f + countEv Failed p = n \<and> countEv Done p < r"
          by blast
        then show ?thesis using Failed r True by simp
      next
        case False
        have "(\<exists>p. prefix p (Failed # evs) \<and> f + countEv Failed p = n \<and> countEv Done p < r)
          = (\<exists>p. prefix p evs \<and> f + 1 + countEv Failed p = n \<and> countEv Done p < r)"
          using Cons.prems r False by (auto simp: prefix_Cons)
        then show ?thesis using Failed r False Cons.prems Cons.IH[of r "f + 1"] by simp
      qed
    qed
  qed
qed

lemma coordinate_success:
  "0 \<le> r \<Longrightarrow> f < n \<Longrightarrow>
   (coordinate n r f evs = Inr ()) =
     (\<exists>p. prefix p evs \<and> countEv Done p = r \<and> f + countEv Failed p < n)"
proof (induction evs arbitrary: r f)
  case Nil
  then show ?case by auto
next
  case (Cons e evs)
  show ?case
  proof (cases "0 < r")
    case False
    then have r0: "r = 0" using Cons.prems by simp
    have "prefix [] (e # evs) \<and> countEv Done [] = r \<and> f + countEv Failed [] < n"
      using r0 Cons.prems by simp
    then have "\<exists>p. prefix p (e # evs) \<and> countEv Done p = r \<and> f + countEv Failed p < n" by blast
    then show ?thesis using r0 by simp
  next
    case r: True
    show ?thesis
    proof (cases e)
      case Done
      have "(\<exists>p. prefix p (Done # evs) \<and> countEv Done p = r \<and> f + countEv Failed p < n)
          = (\<exists>p. prefix p evs \<and> countEv Done p = r - 1 \<and> f + countEv Failed p < n)"
        using Cons.prems r by (auto simp: prefix_Cons)
      then show ?thesis using Done r Cons.prems Cons.IH[of "r - 1" f] by simp
    next
      case Failed
      show ?thesis
      proof (cases "n \<le> f + 1")
        case True
        have "\<not> (\<exists>p. prefix p (Failed # evs) \<and> countEv Done p = r \<and> f + countEv Failed p < n)"
        proof
          assume "\<exists>p. prefix p (Failed # evs) \<and> countEv Done p = r \<and> f + countEv Failed p < n"
          then obtain p where p: "prefix p (Failed # evs)" "countEv Done p = r" "f + countEv Failed p < n"
            by blast
          from p(1,2) r obtain zs where "p = Failed # zs" by (auto simp: prefix_Cons)
          then have "f + 1 \<le> f + countEv Failed p" by simp
          with p(3) True show False by simp
        qed
        then show ?thesis using Failed r True by simp
      next
        case False
        have "(\<exists>p. prefix p (Failed # evs) \<and> countEv Done p = r \<and> f + countEv Failed p < n)
          = (\<exists>p. prefix p evs \<and> countEv Done p = r \<and> f + 1 + countEv Failed p < n)"
          using Cons.prems r False by (auto simp: prefix_Cons)
        then show ?thesis using Failed r False Cons.prems Cons.IH[of r "f + 1"] by simp
      qed
    qed
  qed
qed

text \<open>
  Claim C4. With \<open>N = nConns \<ge> 1\<close> workers and the staging file open, the coordinator
  of \<open>Download\<close> returns the exhausted-sources error exactly when the signals it receives
  reach \<open>N\<close> failures in all (whichever chunks they come from) before \<open>N\<close> completions,
  goes on to the rename exactly when they reach \<open>N\<close> completions with fewer than \<open>N\<close>
  failures, and otherwise, with fewer than \<open>N\<close> of each received, is still waiting: it
  never aborts below \<open>N\<close> failures.
\<close>

theorem Download_failure_budget:
  assumes "1 \<le> nConns dldr" and "files os (partFilename dldr) = Some content"
  shows "((Download dldr os evs = Inl ExhaustedSources) =
            (\<exists>p. prefix p evs \<and> countEv Failed p = nConns dldr \<and> countEv Done p < nConns dldr))
       \<and> ((Download dldr os evs = Inr (partFilename dldr, filename dldr)) =
            (\<exists>p. prefix p evs \<and> countEv Done p = nConns dldr \<and> countEv Failed p < nConns dldr))
       \<and> ((Download dldr os evs = Inl ReceiveBlocked) =
            (countEv Failed evs < nConns dldr \<and> countEv Done evs < nConns dldr))"
proof -
  define n where "n = nConns dldr"
  have n: "0 \<le> n" "0 < n" using assms(1) by (simp_all add: n_def)
  have a: "(coordinate n n 0 evs = Inl ExhaustedSources) =
            (\<exists>p. prefix p evs \<and> countEv Failed p = n \<and> countEv Done p < n)"
    using coordinate_abort[OF n, of evs] by simp
  have s: "(coordinate n n 0 evs = Inr ()) =
            (\<exists>p. prefix p evs \<and> countEv Done p = n \<and> countEv Failed p < n)"
    using coordinate_success[OF n, of evs] by simp
  have b: "(coordinate n n 0 evs = Inl ReceiveBlocked) =
            (countEv Failed evs < n \<and> countEv Done evs < n)"
    using coordinate_blocked[OF n, of evs] by simp
  have D: "Download dldr os evs =
      (case coordinate n n 0 evs of Inl e \<Rightarrow> Inl e | Inr u \<Rightarrow> Inr (partFilename dldr, filename dldr))"
    using assms by (simp add: Download_def n_def)
  have 1: "(Download dldr os evs = Inl ExhaustedSources) = (coordinate n n 0 evs = Inl ExhaustedSources)"
    unfolding D by (simp split: sum.splits)
  have 2: "(Download dldr os evs = Inr (partFilename dldr, filename dldr)) = (coordinate n n 0 evs = Inr ())"
    unfolding D by (simp split: sum.splits)
  have 3: "(Download dldr os evs = Inl ReceiveBlocked) = (coordinate n n 0 evs = Inl ReceiveBlocked)"
    unfolding D by (simp split: sum.splits)
  from a s b show ?thesis unfolding 1 2 3 by (simp add: n_def)
qed

theorem Download_failure_budget_witness:
  "1 \<le> nConns stagedExample
   \<and> files stagedOs (partFilename stagedExample) = Some []
   \<and> Download stagedExample stagedOs [Failed, Done, Failed, Failed, Done] = Inl ExhaustedSources
   \<and> Download stagedExample stagedOs [Failed, Done, Failed, Done, Done, Failed] = Inr (''f.part'', ''f'')
   \<and> Download stagedExample stagedOs [Failed, Done, Failed, Done] = Inl ReceiveBlocked"
proof -
  have h: "1 \<le> nConns stagedExample" "files stagedOs (partFilename stagedExample) = Some []"
    by (simp_all add: stagedExample_def stagedOs_def NewMultiDownloader_def)
  have n: "nConns stagedExample = 3" "partFilename stagedExample = ''f.part''" "filename stagedExample = ''f''"
    by (simp_all add: stagedExample_def NewMultiDownloader_def)
  have "prefix [Failed, Done, Failed, Failed] [Failed, Done, Failed, Failed, Done]
        \<and> countEv Failed [Failed, Done, Failed, Failed] = 3
        \<and> countEv Done [Failed, Done, Failed, Failed] < 3"
    by simp
  then have a: "Download stagedExample stagedOs [Failed, Done, Failed, Failed, Done] = Inl ExhaustedSources"
    using Download_failure_budget[OF h, of "[Failed, Done, Failed, Failed, Done]"] unfolding n by blast
  have "prefix [Failed, Done, Failed, Done, Done] [Failed, Done, Failed, Done, Done, Failed]
        \<and> countEv Done [Failed, Done, Failed, Done, Done] = 3
        \<and> countEv Failed [Failed, Done, Failed, Done, Done] < 3"
    by simp
  then have s: "Download stagedExample stagedOs [Failed, Done, Failed, Done, Done, Failed] = Inr (''f.part'', ''f'')"
    using Download_failure_budget[OF h, of "[Failed, Done, Failed, Done, Done, Failed]"] unfolding n by blast
  have "countEv Failed [Failed, Done, Failed, Done] < 3 \<and> countEv Done [Failed, Done, Failed, Done] < 3"
    by simp
  then have b: "Download stagedExample stagedOs [Failed, Done, Failed, Done] = Inl ReceiveBlocked"
    using Download_failure_budget[OF h, of "[Failed, Done, Failed, Done]"] unfolding n by blast
  show ?thesis using h a s b by simp
qed

section \<open>Properties of the reconciliation\<close>

lemma gatherResults_all_ok:
  "length rs = k \<Longrightarrow> list_all probeOK rs \<Longrightarrow> gatherResults k rs = Inr rs"
  by (induction rs arbitrary: k) (auto simp: probeOK_def)

lemma gatherResults_bad:
  "length rs = k \<Longrightarrow> \<not> list_all probeOK rs \<Longrightarrow>
   \<exists>r\<in>set rs. \<not> probeOK r \<and> gatherResults k rs = Inl (FailedConnection (url r))"
proof (induction rs arbitrary: k)
  case Nil
  then show ?case by simp
next
  case (Cons a rs)
  show ?case
  proof (cases "probeOK a")
    case False
    then show ?thesis using Cons.prems by (auto simp: probeOK_def)
  next
    case True
    then have "\<not> list_all probeOK rs" using Cons.prems by simp
    from Cons.IH[OF refl this] obtain r where
      "r \<in> set rs" "\<not> probeOK r" "gatherResults (length rs) rs = Inl (FailedConnection (url r))"
      by blast
    then show ?thesis using True Cons.prems(1) by (auto simp: probeOK_def)
  qed
qed

lemma go_slice_strip:
  "2 \<le> length s \<Longrightarrow> go_slice s 1 (int (length s) - 1) = Inr (butlast (tl s))"
  by (cases s) (auto simp: go_slice_def butlast_conv_take nat_diff_distrib)

lemma go_slice_single:
  "length s = 1 \<Longrightarrow> go_slice s 1 (int (length s) - 1) = Inl PanicSliceBounds"
  by (simp add: go_slice_def)

lemma GatherInfo_agreed:
  assumes "urls dldr \<noteq> []" and "length results = length (urls dldr)"
    and "list_all probeOK results"
    and "sourcesAgree (urlInfo.fileLength (hd results)) (etag (hd results)) (tl results)"
    and "length (etag (hd results)) \<noteq> 1"
  shows "GatherInfo url_Parse dldr results =
     (case buildChunks (dldr\<lparr>MultiDownloader.fileLength := urlInfo.fileLength (hd results),
              ETag := (if etag (hd results) = [] then ETag dldr else butlast (tl (etag (hd results)))),
              filename := urlToFilename url_Parse (url (hd results)),
              partFilename := urlToFilename url_Parse (url (hd results)) @ tmpFileSuffix\<rparr>) of
        Inl p \<Rightarrow> (Inl p, dldr\<lparr>MultiDownloader.fileLength := urlInfo.fileLength (hd results),
              ETag := (if etag (hd results) = [] then ETag dldr else butlast (tl (etag (hd results)))),
              filename := urlToFilename url_Parse (url (hd results)),
              partFilename := urlToFilename url_Parse (url (hd results)) @ tmpFileSuffix\<rparr>)
      | Inr d5 \<Rightarrow> (Inr (chunks d5), d5))"
proof -
  have ne: "results \<noteq> []" using assms(1,2) by auto
  have g: "gatherResults (length (urls dldr)) results = Inr results"
    using assms(2,3) by (simp add: gatherResults_all_ok)
  have h: "results ! 0 = hd results" using ne by (simp add: hd_conv_nth)
  show ?thesis
  proof (cases "etag (hd results) = []")
    case True
    then show ?thesis using assms(1,4) g h
      by (simp add: GatherInfo_def Let_def split: sum.splits)
  next
    case False
    then have "2 \<le> length (etag (hd results))" using assms(5)
      by (cases "etag (hd results)") (auto simp: Suc_le_eq)
    then have "go_slice (etag (hd results)) 1 (int (length (etag (hd results))) - 1)
                 = Inr (butlast (tl (etag (hd results))))"
      by (rule go_slice_strip)
    then show ?thesis using False assms(1,4) g h
      by (simp add: GatherInfo_def Let_def split: sum.splits)
  qed
qed

lemma buildChunks_pos:
  "1 \<le> nConns d \<Longrightarrow> \<exists>cs. buildChunks d = Inr (d\<lparr>chunks := cs\<rparr>) \<and> length cs = nat (nConns d)"
proof -
  have len: "length (chunkLoop k r b nb q) = k" for k r b nb q
    by (induction k arbitrary: r b nb) (simp_all add: Let_def)
  assume "1 \<le> nConns d"
  then obtain cs where "buildChunks d = Inr (d\<lparr>chunks := cs\<rparr>)"
    and "cs = chunkLoop (nat (nConns d)) (MultiDownloader.fileLength d smod nConns d) 0
               (wrap64 (wrap64 (MultiDownloader.fileLength d -
                   MultiDownloader.fileLength d smod nConns d) sdiv nConns d))
               (wrap64 (wrap64 (MultiDownloader.fileLength d -
                   MultiDownloader.fileLength d smod nConns d) sdiv nConns d))"
    by (simp add: buildChunks_def Let_def)
  then show ?thesis using len by blast
qed

lemma sourcesAgree_length:
  "sourcesAgree L E rs \<Longrightarrow> r \<in> set rs \<Longrightarrow> urlInfo.fileLength r = L"
  by (induction rs) (auto split: if_splits)

lemma sourcesAgree_iff:
  "sourcesAgree L E rs = (\<forall>r\<in>set rs. urlInfo.fileLength r = L \<and> (etag r = [] \<or> etag r = E))"
  by (induction rs) auto

text \<open>
  Claim C5. For every non-empty mirror list with one result per mirror, if at least one
  probe did not connect or returned a status other than 200 (so every non-success status),
  \<open>GatherInfo\<close> returns the connection error naming such a mirror, whatever the other
  probes returned, and leaves the downloader as it was: no length, tag, name or chunk is set.
\<close>

theorem GatherInfo_bad_probe_aborts:
  assumes "urls dldr \<noteq> []" and "length results = length (urls dldr)"
    and "\<exists>r\<in>set results. \<not> connSuccess r \<or> statusCode r \<noteq> 200"
  shows "\<exists>r\<in>set results. (\<not> connSuccess r \<or> statusCode r \<noteq> 200)
           \<and> GatherInfo url_Parse dldr results = (Inl (FailedConnection (url r)), dldr)"
proof -
  have "\<not> list_all probeOK results"
    using assms(3) by (auto simp: list_all_iff probeOK_def)
  from gatherResults_bad[OF refl this] obtain r where
    r: "r \<in> set results" "\<not> probeOK r"
      "gatherResults (length results) results = Inl (FailedConnection (url r))"
    by blast
  have "GatherInfo url_Parse dldr results = (Inl (FailedConnection (url r)), dldr)"
    using assms(1,2) r(3) by (simp add: GatherInfo_def)
  then show ?thesis using r(1,2) by (auto simp: probeOK_def)
qed

theorem GatherInfo_bad_probe_aborts_witness:
  "urls threeMirrors \<noteq> [] \<and> length badMiddle = length (urls threeMirrors)
   \<and> (\<exists>r\<in>set badMiddle. \<not> connSuccess r \<or> statusCode r \<noteq> 200)
   \<and> GatherInfo simpleUrlParse threeMirrors badMiddle
        = (Inl (FailedConnection ''http://a/f.iso''), threeMirrors)"
proof -
  have h: "urls threeMirrors \<noteq> []" "length badMiddle = length (urls threeMirrors)"
    "\<exists>r\<in>set badMiddle. \<not> connSuccess r \<or> statusCode r \<noteq> 200"
    by (simp_all add: threeMirrors_def NewMultiDownloader_def badMiddle_def okProbe_def)
  from GatherInfo_bad_probe_aborts[OF h, of simpleUrlParse] obtain r where
    r: "r \<in> set badMiddle" "\<not> connSuccess r \<or> statusCode r \<noteq> 200"
      "GatherInfo simpleUrlParse threeMirrors badMiddle = (Inl (FailedConnection (url r)), threeMirrors)"
    by blast
  from r(1,2) have "url r = ''http://a/f.iso''"
    by (auto simp: badMiddle_def okProbe_def)
  with r(3) h show ?thesis by simp
qed

text \<open>
  Claim C10. \<open>GatherInfo\<close> builds the chunk table itself. When the mirror list is not
  empty and all probes succeed and agree, the call ends in the division-by-zero panic of
  \<open>buildChunks\<close> exactly when \<open>nConns = 0\<close>, and it returns a chunk table exactly when
  \<open>nConns \<ge> 1\<close>. The table it then returns is the one it stores in the downloader: the
  result of \<open>buildChunks\<close> on the agreed length, with \<open>nConns\<close> chunks, whose boundaries
  are those of the planner when the agreed length is a non-negative \<open>int64\<close>.
\<close>

theorem GatherInfo_needs_positive_nConns:
  assumes "urls dldr \<noteq> []" and "length results = length (urls dldr)"
    and "list_all probeOK results"
    and "sourcesAgree (urlInfo.fileLength (hd results)) (etag (hd results)) (tl results)"
    and "length (etag (hd results)) \<noteq> 1"
  shows "((fst (GatherInfo url_Parse dldr results) = Inl PanicDivideByZero) = (nConns dldr = 0))
       \<and> ((\<exists>cs. fst (GatherInfo url_Parse dldr results) = Inr cs) = (1 \<le> nConns dldr))
       \<and> (1 \<le> nConns dldr \<longrightarrow>
            (\<exists>cs d'. GatherInfo url_Parse dldr results = (Inr cs, d')
               \<and> chunks d' = cs
               \<and> length cs = nat (nConns dldr)
               \<and> MultiDownloader.fileLength d' = urlInfo.fileLength (hd results)
               \<and> nConns d' = nConns dldr
               \<and> buildChunks (d'\<lparr>chunks := chunks dldr\<rparr>) = Inr d'
               \<and> (0 \<le> urlInfo.fileLength (hd results) \<and> urlInfo.fileLength (hd results) < 2 ^ 63
                    \<longrightarrow> cs = map (\<lambda>j.
                           \<lparr>Begin = bnd 0 (urlInfo.fileLength (hd results) div nConns dldr)
                                      (urlInfo.fileLength (hd results) mod nConns dldr) j,
                            End = bnd 0 (urlInfo.fileLength (hd results) div nConns dldr)
                                      (urlInfo.fileLength (hd results) mod nConns dldr) (Suc j)\<rparr>)
                         [0..<nat (nConns dldr)])))"
proof -
  define d4 where "d4 = dldr\<lparr>MultiDownloader.fileLength := urlInfo.fileLength (hd results),
              ETag := (if etag (hd results) = [] then ETag dldr else butlast (tl (etag (hd results)))),
              filename := urlToFilename url_Parse (url (hd results)),
              partFilename := urlToFilename url_Parse (url (hd results)) @ tmpFileSuffix\<rparr>"
  have G: "GatherInfo url_Parse dldr results =
     (case buildChunks d4 of Inl p \<Rightarrow> (Inl p, d4) | Inr d5 \<Rightarrow> (Inr (chunks d5), d5))"
    unfolding d4_def by (rule GatherInfo_agreed[OF assms])
  have n: "nConns d4 = nConns dldr" by (simp add: d4_def)
  have L: "MultiDownloader.fileLength d4 = urlInfo.fileLength (hd results)"
    by (simp add: d4_def)
  have c: "chunks d4 = chunks dldr" by (simp add: d4_def)
  consider "nConns dldr = 0" | "nConns dldr < 0" | "1 \<le> nConns dldr" by linarith
  then show ?thesis
  proof cases
    case 1
    then have "buildChunks d4 = Inl PanicDivideByZero" using n by (simp add: buildChunks_def)
    then show ?thesis using G 1 by simp
  next
    case 2
    then have "buildChunks d4 = Inl PanicMakeSliceLen" using n by (simp add: buildChunks_def Let_def)
    then show ?thesis using G 2 by simp
  next
    case 3
    then obtain cs where b: "buildChunks d4 = Inr (d4\<lparr>chunks := cs\<rparr>)"
      and len: "length cs = nat (nConns dldr)"
      using buildChunks_pos[of d4] n by auto
    have g: "GatherInfo url_Parse dldr results = (Inr cs, d4\<lparr>chunks := cs\<rparr>)"
      using G b by simp
    have restore: "(d4\<lparr>chunks := cs\<rparr>)\<lparr>chunks := chunks dldr\<rparr> = d4"
      using c by simp
    have tbl: "cs = map (\<lambda>j.
                           \<lparr>Begin = bnd 0 (urlInfo.fileLength (hd results) div nConns dldr)
                                      (urlInfo.fileLength (hd results) mod nConns dldr) j,
                            End = bnd 0 (urlInfo.fileLength (hd results) div nConns dldr)
                                      (urlInfo.fileLength (hd results) mod nConns dldr) (Suc j)\<rparr>)
                         [0..<nat (nConns dldr)]"
      if r: "0 \<le> urlInfo.fileLength (hd results) \<and> urlInfo.fileLength (hd results) < 2 ^ 63"
    proof -
      have "buildChunks d4 = Inr (d4\<lparr>chunks :=
           map (\<lambda>j. \<lparr>Begin = bnd 0 (MultiDownloader.fileLength d4 div nConns d4)
                               (MultiDownloader.fileLength d4 mod nConns d4) j,
                      End = bnd 0 (MultiDownloader.fileLength d4 div nConns d4)
                               (MultiDownloader.fileLength d4 mod nConns d4) (Suc j)\<rparr>)
               [0..<nat (nConns d4)]\<rparr>)"
        using r 3 n L by (intro buildChunks_closed) auto
      with b have "chunks (d4\<lparr>chunks := cs\<rparr>) = chunks (d4\<lparr>chunks :=
           map (\<lambda>j. \<lparr>Begin = bnd 0 (MultiDownloader.fileLength d4 div nConns d4)
                               (MultiDownloader.fileLength d4 mod nConns d4) j,
                      End = bnd 0 (MultiDownloader.fileLength d4 div nConns d4)
                               (MultiDownloader.fileLength d4 mod nConns d4) (Suc j)\<rparr>)
               [0..<nat (nConns d4)]\<rparr>)"
        by simp
      then show ?thesis by (simp add: n L)
    qed
    have ex: "\<exists>cs d'. GatherInfo url_Parse dldr results = (Inr cs, d')
               \<and> chunks d' = cs
               \<and> length cs = nat (nConns dldr)
               \<and> MultiDownloader.fileLength d' = urlInfo.fileLength (hd results)
               \<and> nConns d' = nConns dldr
               \<and> buildChunks (d'\<lparr>chunks := chunks dldr\<rparr>) = Inr d'
               \<and> (0 \<le> urlInfo.fileLength (hd results) \<and> urlInfo.fileLength (hd results) < 2 ^ 63
                    \<longrightarrow> cs = map (\<lambda>j.
                           \<lparr>Begin = bnd 0 (urlInfo.fileLength (hd results) div nConns dldr)
                                      (urlInfo.fileLength (hd results) mod nConns dldr) j,
                            End = bnd 0 (urlInfo.fileLength (hd results) div nConns dldr)
                                      (urlInfo.fileLength (hd results) mod nConns dldr) (Suc j)\<rparr>)
                         [0..<nat (nConns dldr)])"
    proof (intro exI conjI impI)
      show "GatherInfo url_Parse dldr results = (Inr cs, d4\<lparr>chunks := cs\<rparr>)" by (rule g)
      show "chunks (d4\<lparr>chunks := cs\<rparr>) = cs" by simp
      show "length cs = nat (nConns dldr)" by (rule len)
      show "MultiDownloader.fileLength (d4\<lparr>chunks := cs\<rparr>) = urlInfo.fileLength (hd results)"
        using L by simp
      show "nConns (d4\<lparr>chunks := cs\<rparr>) = nConns dldr" using n by simp
      show "buildChunks ((d4\<lparr>chunks := cs\<rparr>)\<lparr>chunks := chunks dldr\<rparr>) = Inr (d4\<lparr>chunks := cs\<rparr>)"
        unfolding restore by (rule b)
      show "cs = map (\<lambda>j.
                           \<lparr>Begin = bnd 0 (urlInfo.fileLength (hd results) div nConns dldr)
                                      (urlInfo.fileLength (hd results) mod nConns dldr) j,
                            End = bnd 0 (urlInfo.fileLength (hd results) div nConns dldr)
                                      (urlInfo.fileLength (hd results) mod nConns dldr) (Suc j)\<rparr>)
                         [0..<nat (nConns dldr)]"
        if "0 \<le> urlInfo.fileLength (hd results) \<and> urlInfo.fileLength (hd results) < 2 ^ 63"
        using that by (rule tbl)
    qed
    have e1: "\<exists>cs. fst (GatherInfo url_Parse dldr results) = Inr cs" using g by simp
    have e2: "fst (GatherInfo url_Parse dldr results) \<noteq> Inl PanicDivideByZero" using g by simp
    show ?thesis using 3 ex e1 e2 by simp
  qed
qed

theorem GatherInfo_needs_positive_nConns_witness:
  "urls (threeMirrors\<lparr>nConns := 0\<rparr>) \<noteq> []
   \<and> length agreeingProbes = length (urls (threeMirrors\<lparr>nConns := 0\<rparr>))
   \<and> list_all probeOK agreeingProbes
   \<and> sourcesAgree (urlInfo.fileLength (hd agreeingProbes)) (etag (hd agreeingProbes)) (tl agreeingProbes)
   \<and> length (etag (hd agreeingProbes)) \<noteq> 1
   \<and> fst (GatherInfo simpleUrlParse (threeMirrors\<lparr>nConns := 0\<rparr>) agreeingProbes) = Inl PanicDivideByZero
   \<and> (\<exists>d'. GatherInfo simpleUrlParse threeMirrors agreeingProbes
              = (Inr [\<lparr>Begin = 0, End = 50\<rparr>, \<lparr>Begin = 50, End = 100\<rparr>], d')
          \<and> chunks d' = [\<lparr>Begin = 0, End = 50\<rparr>, \<lparr>Begin = 50, End = 100\<rparr>]
          \<and> MultiDownloader.fileLength d' = 100)"
proof -
  have h1: "urls (threeMirrors\<lparr>nConns := n\<rparr>) \<noteq> []"
    "length agreeingProbes = length (urls (threeMirrors\<lparr>nConns := n\<rparr>))" for n
    by (simp_all add: threeMirrors_def NewMultiDownloader_def agreeingProbes_def)
  have h2: "list_all probeOK agreeingProbes"
    "sourcesAgree (urlInfo.fileLength (hd agreeingProbes)) (etag (hd agreeingProbes)) (tl agreeingProbes)"
    "length (etag (hd agreeingProbes)) \<noteq> 1"
    by (simp_all add: agreeingProbes_def okProbe_def probeOK_def quoted_def)
  have a: "fst (GatherInfo simpleUrlParse (threeMirrors\<lparr>nConns := 0\<rparr>) agreeingProbes) = Inl PanicDivideByZero"
    using GatherInfo_needs_positive_nConns[OF h1[of 0] h2, of simpleUrlParse] by simp
  have h3: "urls threeMirrors \<noteq> []" "length agreeingProbes = length (urls threeMirrors)"
    and n: "nConns threeMirrors = 2"
    and L: "urlInfo.fileLength (hd agreeingProbes) = 100"
    by (simp_all add: threeMirrors_def NewMultiDownloader_def agreeingProbes_def okProbe_def)
  from GatherInfo_needs_positive_nConns[OF h3 h2, of simpleUrlParse] n
  obtain cs d' where g: "GatherInfo simpleUrlParse threeMirrors agreeingProbes = (Inr cs, d')"
    and c: "chunks d' = cs" and l: "MultiDownloader.fileLength d' = 100"
    and t: "cs = map (\<lambda>j. \<lparr>Begin = bnd 0 (100 div 2) (100 mod 2) j,
                            End = bnd 0 (100 div 2) (100 mod 2) (Suc j)\<rparr>) [0..<nat 2]"
    unfolding L by auto
  have "cs = [\<lparr>Begin = 0, End = 50\<rparr>, \<lparr>Begin = 50, End = 100\<rparr>]"
    unfolding t by (simp add: bnd_def numeral_2_eq_2)
  then have b: "\<exists>d'. GatherInfo simpleUrlParse threeMirrors agreeingProbes
              = (Inr [\<lparr>Begin = 0, End = 50\<rparr>, \<lparr>Begin = 50, End = 100\<rparr>], d')
          \<and> chunks d' = [\<lparr>Begin = 0, End = 50\<rparr>, \<lparr>Begin = 50, End = 100\<rparr>]
          \<and> MultiDownloader.fileLength d' = 100"
    using g c l by blast
  show ?thesis using h1[of 0] h2 a b by simp
qed

text \<open>When the probes succeed and agree, \<open>nConns \<ge> 1\<close> and the tag of the first result
  has length 0 or at least 2, \<open>GatherInfo\<close> returns normally; an empty tag is not indexed
  and leaves \<open>ETag\<close> as it was; from any other tag the first and the last character are
  removed, whatever they are.\<close>

lemma GatherInfo_tag_cut:
  assumes "urls dldr \<noteq> []" and "length results = length (urls dldr)"
    and "list_all probeOK results"
    and "sourcesAgree (urlInfo.fileLength (hd results)) (etag (hd results)) (tl results)"
    and "length (etag (hd results)) \<noteq> 1"
    and "1 \<le> nConns dldr"
  shows "\<exists>cs d'. GatherInfo url_Parse dldr results = (Inr cs, d')
           \<and> (etag (hd results) = [] \<longrightarrow> ETag d' = ETag dldr)
           \<and> (etag (hd results) \<noteq> [] \<longrightarrow> ETag d' = butlast (tl (etag (hd results))))
           \<and> (\<forall>a t b. etag (hd results) = a # t @ [b] \<longrightarrow> ETag d' = t)"
proof -
  define d4 where "d4 = dldr\<lparr>MultiDownloader.fileLength := urlInfo.fileLength (hd results),
              ETag := (if etag (hd results) = [] then ETag dldr else butlast (tl (etag (hd results)))),
              filename := urlToFilename url_Parse (url (hd results)),
              partFilename := urlToFilename url_Parse (url (hd results)) @ tmpFileSuffix\<rparr>"
  have G: "GatherInfo url_Parse dldr results =
     (case buildChunks d4 of Inl p \<Rightarrow> (Inl p, d4) | Inr d5 \<Rightarrow> (Inr (chunks d5), d5))"
    unfolding d4_def by (rule GatherInfo_agreed[OF assms(1-5)])
  have "1 \<le> nConns d4" using assms(6) by (simp add: d4_def)
  then obtain cs where b: "buildChunks d4 = Inr (d4\<lparr>chunks := cs\<rparr>)"
    using buildChunks_pos[of d4] by blast
  have g: "GatherInfo url_Parse dldr results = (Inr cs, d4\<lparr>chunks := cs\<rparr>)"
    using G b by simp
  have e: "ETag (d4\<lparr>chunks := cs\<rparr>) =
      (if etag (hd results) = [] then ETag dldr else butlast (tl (etag (hd results))))"
    by (simp add: d4_def)
  have "(etag (hd results) = [] \<longrightarrow> ETag (d4\<lparr>chunks := cs\<rparr>) = ETag dldr)
      \<and> (etag (hd results) \<noteq> [] \<longrightarrow> ETag (d4\<lparr>chunks := cs\<rparr>) = butlast (tl (etag (hd results))))
      \<and> (\<forall>a t b. etag (hd results) = a # t @ [b] \<longrightarrow> ETag (d4\<lparr>chunks := cs\<rparr>) = t)"
    unfolding e by (auto simp: butlast_append)
  with g show ?thesis by blast
qed

text \<open>A tag of length 1 makes the slice expression \<open>commonEtag[1 : len(commonEtag)-1]\<close>
  panic, after the file length has been stored.\<close>

lemma GatherInfo_single_char_tag_panics:
  assumes "urls dldr \<noteq> []" and "length results = length (urls dldr)"
    and "list_all probeOK results"
    and "sourcesAgree (urlInfo.fileLength (hd results)) (etag (hd results)) (tl results)"
    and "length (etag (hd results)) = 1"
  shows "GatherInfo url_Parse dldr results =
           (Inl PanicSliceBounds, dldr\<lparr>MultiDownloader.fileLength := urlInfo.fileLength (hd results)\<rparr>)"
proof -
  have ne: "results \<noteq> []" using assms(1,2) by auto
  have g: "gatherResults (length (urls dldr)) results = Inr results"
    using assms(2,3) by (simp add: gatherResults_all_ok)
  have h: "results ! 0 = hd results" using ne by (simp add: hd_conv_nth)
  have e: "etag (hd results) \<noteq> []" using assms(5) by auto
  show ?thesis
    using assms(1,4) g h e go_slice_single[OF assms(5)] by (simp add: GatherInfo_def Let_def)
qed

text \<open>
  Claim C3 on the code. The comment on the normalisation step of \<open>GatherInfo\<close> says that it
  removes the surrounding quotes. The step removes the first and the last character of every
  non-empty tag without looking at them. The tag \<open>abc\<close> between quotes gives \<open>abc\<close>, and
  an absent tag is not indexed. But the tag \<open>abc\<close> without quotes is not left unchanged, it
  gives \<open>b\<close>; the weak tag \<open>W/\<close> followed by \<open>abc\<close> between quotes loses its \<open>W\<close> and
  its closing quote; and a tag of one character makes the slice expression panic.
\<close>

theorem GatherInfo_tag_strip_defects:
  "ETag (snd (GatherInfo simpleUrlParse threeMirrors agreeingProbes)) = ''abc''
   \<and> GatherInfo simpleUrlParse twoMirrors
        [okProbe ''http://a/f.iso'' 100 [], okProbe ''http://b/f.iso'' 100 []]
       = (Inr [\<lparr>Begin = 0, End = 50\<rparr>, \<lparr>Begin = 50, End = 100\<rparr>],
          twoMirrors\<lparr>MultiDownloader.fileLength := 100, filename := ''f.iso'',
            partFilename := ''f.iso.part'',
            chunks := [\<lparr>Begin = 0, End = 50\<rparr>, \<lparr>Begin = 50, End = 100\<rparr>]\<rparr>)
   \<and> etag (hd unquotedProbes) = ''abc''
   \<and> fst (GatherInfo simpleUrlParse threeMirrors unquotedProbes)
        = Inr [\<lparr>Begin = 0, End = 50\<rparr>, \<lparr>Begin = 50, End = 100\<rparr>]
   \<and> ETag (snd (GatherInfo simpleUrlParse threeMirrors unquotedProbes)) = ''b''
   \<and> etag (hd weakTagProbes) = ''W/'' @ quoted ''abc''
   \<and> ETag (snd (GatherInfo simpleUrlParse threeMirrors weakTagProbes)) = ''/'' @ CHR 0x22 # ''abc''
   \<and> etag (hd singleCharProbes) = ''a''
   \<and> GatherInfo simpleUrlParse threeMirrors singleCharProbes
       = (Inl PanicSliceBounds, threeMirrors\<lparr>MultiDownloader.fileLength := 100\<rparr>)"
  by (simp add: GatherInfo_def threeMirrors_def twoMirrors_def NewMultiDownloader_def okProbe_def
      agreeingProbes_def unquotedProbes_def weakTagProbes_def singleCharProbes_def quoted_def
      numeral_3_eq_3 go_slice_def Let_def buildChunks_def wrap64_def smod_int_alt_def
      signed_divide_int_def numeral_2_eq_2 urlToFilename_def simpleUrlParse_def plainChar_def
      path_Split_def LastIndex_def tmpFileSuffix_def)

text \<open>
  Claim C2 on the code. Three mirrors report length 100 and the tags \<open>"abc"\<close>, empty and
  \<open>"abc"\<close>. When a result with the tag arrives first, \<open>GatherInfo\<close> succeeds with tag
  \<open>abc\<close>; when the result with the empty tag arrives first, the same three results are
  rejected as not pointing to the same file.
\<close>

theorem GatherInfo_empty_first_tag_rejected:
  "emptyFirstProbes = [agreeingProbes ! 1, agreeingProbes ! 0, agreeingProbes ! 2]
   \<and> fst (GatherInfo simpleUrlParse threeMirrors agreeingProbes)
        = Inr [\<lparr>Begin = 0, End = 50\<rparr>, \<lparr>Begin = 50, End = 100\<rparr>]
   \<and> ETag (snd (GatherInfo simpleUrlParse threeMirrors agreeingProbes)) = ''abc''
   \<and> GatherInfo simpleUrlParse threeMirrors emptyFirstProbes = (Inl NotSameFile, threeMirrors)"
  by (simp add: GatherInfo_def threeMirrors_def NewMultiDownloader_def okProbe_def agreeingProbes_def
      emptyFirstProbes_def quoted_def
      numeral_3_eq_3 go_slice_def Let_def buildChunks_def wrap64_def smod_int_alt_def
      signed_divide_int_def numeral_2_eq_2)

text \<open>
  Claim C9. A probe that connects with status 200 and whose \<open>Content-Length\<close> header does
  not parse (a missing header reads as the empty string) yields a successful result with
  file length 0. Among successful results such a result makes \<open>GatherInfo\<close> fail with the
  same-file error when some mirror reports a length other than 0, and when all report 0 (and
  the tags agree, \<open>nConns \<ge> 1\<close>) the call succeeds with file length 0 and empty chunks.
\<close>

theorem getHead_unparsable_length_is_zero:
  assumes "ParseInt (Header_Get hdr ''Content-Length'') = None"
  shows "getHead ParseInt u (Some \<lparr>StatusCode = 200, Header = hdr\<rparr>)
           = \<lparr>url = u, fileLength = 0, etag = Header_Get hdr ''Etag'', connSuccess = True,
              statusCode = 200\<rparr>
       \<and> (urls dldr \<noteq> [] \<and> length results = length (urls dldr) \<and> list_all probeOK results
            \<and> getHead ParseInt u (Some \<lparr>StatusCode = 200, Header = hdr\<rparr>) \<in> set results
            \<and> (\<exists>r\<in>set results. urlInfo.fileLength r \<noteq> 0)
          \<longrightarrow> GatherInfo url_Parse dldr results = (Inl NotSameFile, dldr))
       \<and> (urls dldr \<noteq> [] \<and> length results = length (urls dldr) \<and> list_all probeOK results
            \<and> getHead ParseInt u (Some \<lparr>StatusCode = 200, Header = hdr\<rparr>) \<in> set results
            \<and> (\<forall>r\<in>set results. urlInfo.fileLength r = 0)
            \<and> (\<forall>r\<in>set (tl results). etag r = [] \<or> etag r = etag (hd results))
            \<and> length (etag (hd results)) \<noteq> 1 \<and> 1 \<le> nConns dldr
          \<longrightarrow> (\<exists>cs d'. GatherInfo url_Parse dldr results = (Inr cs, d')
                 \<and> MultiDownloader.fileLength d' = 0 \<and> length cs = nat (nConns dldr)
                 \<and> (\<forall>c\<in>set cs. Begin c = 0 \<and> End c = 0)))"
proof (intro conjI impI)
  show r0: "getHead ParseInt u (Some \<lparr>StatusCode = 200, Header = hdr\<rparr>)
           = \<lparr>url = u, fileLength = 0, etag = Header_Get hdr ''Etag'', connSuccess = True,
              statusCode = 200\<rparr>"
    using assms by (simp add: getHead_def)
  {
    assume a: "urls dldr \<noteq> [] \<and> length results = length (urls dldr) \<and> list_all probeOK results
            \<and> getHead ParseInt u (Some \<lparr>StatusCode = 200, Header = hdr\<rparr>) \<in> set results
            \<and> (\<exists>r\<in>set results. urlInfo.fileLength r \<noteq> 0)"
    then have ne: "results \<noteq> []" by auto
    have g: "gatherResults (length (urls dldr)) results = Inr results"
      using a by (simp add: gatherResults_all_ok)
    have h: "results ! 0 = hd results" using ne by (simp add: hd_conv_nth)
    have z: "\<exists>r\<in>set results. urlInfo.fileLength r = 0" using a r0 by force
    have "\<not> sourcesAgree (urlInfo.fileLength (hd results)) (etag (hd results)) (tl results)"
    proof
      assume "sourcesAgree (urlInfo.fileLength (hd results)) (etag (hd results)) (tl results)"
      then have "\<forall>r\<in>set (tl results). urlInfo.fileLength r = urlInfo.fileLength (hd results)"
        by (simp add: sourcesAgree_iff)
      moreover have "set results = insert (hd results) (set (tl results))"
        using ne by (cases results) auto
      ultimately have "\<forall>r\<in>set results. urlInfo.fileLength r = urlInfo.fileLength (hd results)"
        by auto
      with z a show False by metis
    qed
    then show "GatherInfo url_Parse dldr results = (Inl NotSameFile, dldr)"
      using a g h by (simp add: GatherInfo_def Let_def)
  }
  {
    assume a: "urls dldr \<noteq> [] \<and> length results = length (urls dldr) \<and> list_all probeOK results
            \<and> getHead ParseInt u (Some \<lparr>StatusCode = 200, Header = hdr\<rparr>) \<in> set results
            \<and> (\<forall>r\<in>set results. urlInfo.fileLength r = 0)
            \<and> (\<forall>r\<in>set (tl results). etag r = [] \<or> etag r = etag (hd results))
            \<and> length (etag (hd results)) \<noteq> 1 \<and> 1 \<le> nConns dldr"
    then have ne: "results \<noteq> []" by auto
    then have hd0: "urlInfo.fileLength (hd results) = 0" using a by simp
    have tl0: "\<forall>r\<in>set (tl results). urlInfo.fileLength r = 0"
      using a ne by (cases results) auto
    have ag: "sourcesAgree (urlInfo.fileLength (hd results)) (etag (hd results)) (tl results)"
      using a tl0 hd0 by (simp add: sourcesAgree_iff)
    define d4 where "d4 = dldr\<lparr>MultiDownloader.fileLength := urlInfo.fileLength (hd results),
              ETag := (if etag (hd results) = [] then ETag dldr else butlast (tl (etag (hd results)))),
              filename := urlToFilename url_Parse (url (hd results)),
              partFilename := urlToFilename url_Parse (url (hd results)) @ tmpFileSuffix\<rparr>"
    have G: "GatherInfo url_Parse dldr results =
       (case buildChunks d4 of Inl p \<Rightarrow> (Inl p, d4) | Inr d5 \<Rightarrow> (Inr (chunks d5), d5))"
      unfolding d4_def using a ag by (intro GatherInfo_agreed) auto
    have d4: "MultiDownloader.fileLength d4 = 0" "nConns d4 = nConns dldr"
      using hd0 by (simp_all add: d4_def)
    define cs where "cs = map (\<lambda>j. \<lparr>Begin = bnd 0 (MultiDownloader.fileLength d4 div nConns d4)
                        (MultiDownloader.fileLength d4 mod nConns d4) j,
                      End = bnd 0 (MultiDownloader.fileLength d4 div nConns d4)
                        (MultiDownloader.fileLength d4 mod nConns d4) (Suc j)\<rparr>) [0..<nat (nConns d4)]"
    have b: "buildChunks d4 = Inr (d4\<lparr>chunks := cs\<rparr>)"
      unfolding cs_def using d4 a by (intro buildChunks_closed) auto
    have "GatherInfo url_Parse dldr results = (Inr cs, d4\<lparr>chunks := cs\<rparr>)"
      using G b by simp
    moreover have "MultiDownloader.fileLength (d4\<lparr>chunks := cs\<rparr>) = 0" using d4 by simp
    moreover have "length cs = nat (nConns dldr)" by (simp add: cs_def d4)
    moreover have "\<forall>c\<in>set cs. Begin c = 0 \<and> End c = 0"
      by (auto simp: cs_def d4 bnd_def)
    ultimately show "\<exists>cs d'. GatherInfo url_Parse dldr results = (Inr cs, d')
                 \<and> MultiDownloader.fileLength d' = 0 \<and> length cs = nat (nConns dldr)
                 \<and> (\<forall>c\<in>set cs. Begin c = 0 \<and> End c = 0)"
      by blast
  }
qed

theorem getHead_unparsable_length_is_zero_witness:
  "decimalParseInt (Header_Get (Header noLengthResponse) ''Content-Length'') = None
   \<and> getHead decimalParseInt ''http://a/f.iso'' (Some noLengthResponse)
        = okProbe ''http://a/f.iso'' 0 (quoted ''abc'')
   \<and> GatherInfo simpleUrlParse twoMirrors
        [getHead decimalParseInt ''http://a/f.iso'' (Some noLengthResponse),
         okProbe ''http://b/f.iso'' 100 (quoted ''abc'')] = (Inl NotSameFile, twoMirrors)
   \<and> (\<exists>cs d'. GatherInfo simpleUrlParse twoMirrors
        [getHead decimalParseInt ''http://a/f.iso'' (Some noLengthResponse),
         okProbe ''http://b/f.iso'' 0 []] = (Inr cs, d')
         \<and> MultiDownloader.fileLength d' = 0 \<and> length cs = 2)"
proof -
  define hdr where "hdr = [''Etag'' \<mapsto> quoted ''abc'']"
  have nl: "noLengthResponse = \<lparr>StatusCode = 200, Header = hdr\<rparr>"
    by (simp add: noLengthResponse_def hdr_def)
  have p: "decimalParseInt (Header_Get hdr ''Content-Length'') = None"
    by (simp add: hdr_def Header_Get_def decimalParseInt_def)
  have e: "Header_Get hdr ''Etag'' = quoted ''abc''"
    by (simp add: hdr_def Header_Get_def)
  note T = getHead_unparsable_length_is_zero[where ParseInt = decimalParseInt and hdr = hdr
      and u = "''http://a/f.iso''", OF p]
  note T1 = T[THEN conjunct1]
  have r0: "getHead decimalParseInt ''http://a/f.iso'' (Some \<lparr>StatusCode = 200, Header = hdr\<rparr>)
        = okProbe ''http://a/f.iso'' 0 (quoted ''abc'')"
    using T1 unfolding e okProbe_def .
  have a: "GatherInfo simpleUrlParse twoMirrors
        [okProbe ''http://a/f.iso'' 0 (quoted ''abc''),
         okProbe ''http://b/f.iso'' 100 (quoted ''abc'')] = (Inl NotSameFile, twoMirrors)"
    using T[where dldr = twoMirrors and url_Parse = simpleUrlParse and results =
         "[okProbe ''http://a/f.iso'' 0 (quoted ''abc''),
           okProbe ''http://b/f.iso'' 100 (quoted ''abc'')]", THEN conjunct2, THEN conjunct1]
    unfolding r0 by (simp add: twoMirrors_def NewMultiDownloader_def okProbe_def probeOK_def)
  have b: "\<exists>cs d'. GatherInfo simpleUrlParse twoMirrors
        [okProbe ''http://a/f.iso'' 0 (quoted ''abc''),
         okProbe ''http://b/f.iso'' 0 []] = (Inr cs, d')
         \<and> MultiDownloader.fileLength d' = 0 \<and> length cs = 2"
    using T[where dldr = twoMirrors and url_Parse = simpleUrlParse and results =
         "[okProbe ''http://a/f.iso'' 0 (quoted ''abc''),
           okProbe ''http://b/f.iso'' 0 []]", THEN conjunct2, THEN conjunct2]
    unfolding r0
    by (simp add: twoMirrors_def NewMultiDownloader_def okProbe_def probeOK_def quoted_def) blast
  show ?thesis unfolding nl r0 using p a b by simp
qed

section \<open>Properties of the derived file name\<close>

lemma lastIndexFrom_eq:
  "lastIndexFrom c xs i best =
     (if c \<in> set xs
      then i + int (length xs) - 1 - int (length (takeWhile (\<lambda>x. x \<noteq> c) (rev xs)))
      else best)"
proof (induction xs arbitrary: i best)
  case Nil
  then show ?case by simp
next
  case (Cons x xs)
  show ?case
  proof (cases "c \<in> set xs")
    case True
    then have "takeWhile (\<lambda>x. x \<noteq> c) (rev xs @ [x]) = takeWhile (\<lambda>x. x \<noteq> c) (rev xs)"
      by (intro takeWhile_append1[of c]) auto
    then show ?thesis using True by (simp add: Cons.IH)
  next
    case False
    then have tw: "takeWhile (\<lambda>x. x \<noteq> c) (rev xs @ [x]) = rev xs @ takeWhile (\<lambda>x. x \<noteq> c) [x]"
      by (intro takeWhile_append2) auto
    show ?thesis
    proof (cases "x = c")
      case True
      have l: "length (takeWhile (\<lambda>x. x \<noteq> c) (rev (x # xs))) = length xs"
        using tw True by simp
      have v: "lastIndexFrom c (x # xs) i best = i"
        using False True by (simp add: Cons.IH)
      have m: "c \<in> set (x # xs)" using True by simp
      show ?thesis unfolding v l using m by simp
    next
      case neq: False
      then show ?thesis using False by (simp add: Cons.IH)
    qed
  qed
qed

lemma path_Split_eq:
  "path_Split p = (rev (dropWhile (\<lambda>x. x \<noteq> CHR ''/'') (rev p)),
                   rev (takeWhile (\<lambda>x. x \<noteq> CHR ''/'') (rev p)))"
proof -
  define k where "k = length (takeWhile (\<lambda>x. x \<noteq> CHR ''/'') (rev p))"
  have kle: "k \<le> length p"
    unfolding k_def using length_takeWhile_le[of _ "rev p"] by simp
  have n: "nat (LastIndex p CHR ''/'' + 1) = length p - k"
  proof (cases "CHR ''/'' \<in> set p")
    case True
    then show ?thesis using kle by (simp add: LastIndex_def lastIndexFrom_eq k_def)
  next
    case False
    then have tw: "takeWhile (\<lambda>x. x \<noteq> CHR ''/'') (rev p) = rev p"
      by auto
    have "k = length p" unfolding k_def tw by simp
    then show ?thesis using False by (simp add: LastIndex_def lastIndexFrom_eq)
  qed
  have t: "takeWhile (\<lambda>x. x \<noteq> CHR ''/'') (rev p) = take k (rev p)"
    unfolding k_def by (rule takeWhile_eq_take)
  have d: "dropWhile (\<lambda>x. x \<noteq> CHR ''/'') (rev p) = drop k (rev p)"
    unfolding k_def by (rule dropWhile_eq_drop)
  have "rev (take k (rev p)) = drop (length p - k) p"
    by (simp add: rev_take)
  moreover have "rev (drop k (rev p)) = take (length p - k) p"
    by (simp add: rev_drop)
  ultimately show ?thesis
    by (simp add: path_Split_def Let_def n t d)
qed

lemma gatherResults_Inr:
  "gatherResults k rs = Inr xs \<Longrightarrow> xs = take k rs \<and> k \<le> length rs"
proof (induction k rs arbitrary: xs rule: gatherResults.induct)
  case (1 incoming)
  then show ?case by simp
next
  case (2 k)
  then show ?case by simp
next
  case (3 k r incoming)
  then show ?case by (auto split: if_splits sum.splits)
qed

lemma GatherInfo_names:
  assumes "GatherInfo url_Parse dldr results = (Inr cs, d')"
  shows "results \<noteq> [] \<and> filename d' = urlToFilename url_Parse (url (hd results))
         \<and> partFilename d' = filename d' @ tmpFileSuffix"
proof -
  have u: "urls dldr \<noteq> []" using assms by (auto simp: GatherInfo_def)
  then obtain resArray where g: "gatherResults (length (urls dldr)) results = Inr resArray"
    using assms by (auto simp: GatherInfo_def split: sum.splits)
  from gatherResults_Inr[OF g] u have r: "resArray = take (length (urls dldr)) results"
    "results \<noteq> []" by auto
  then have h: "resArray ! 0 = hd results" using u by (simp add: hd_conv_nth)
  have b: "buildChunks d = Inr d5 \<Longrightarrow> filename d5 = filename d \<and> partFilename d5 = partFilename d"
    for d d5 by (auto simp: buildChunks_def Let_def split: if_splits)
  show ?thesis
    using assms u g h r(2) b
    by (auto simp: GatherInfo_def Let_def split: sum.splits if_splits)
qed

text \<open>
  Claim C7, as amended. \<open>urlToFilename\<close> returns the literal \<open>downloaded-file\<close> exactly
  when parsing the URL fails; otherwise it returns what follows the last slash of the parsed
  path, which holds no slash and is empty exactly when the path is empty or ends in a slash.
  A successful \<open>GatherInfo\<close> takes the name from the URL of the first result received and
  derives the staging name from it.
\<close>

theorem urlToFilename_last_segment:
  "(url_Parse urlStr = None \<longrightarrow> urlToFilename url_Parse urlStr = ''downloaded-file'')
   \<and> (\<forall>u. url_Parse urlStr = Some u \<longrightarrow>
         CHR ''/'' \<notin> set (urlToFilename url_Parse urlStr)
         \<and> (\<exists>dir. Path u = dir @ urlToFilename url_Parse urlStr
                \<and> (dir = [] \<or> last dir = CHR ''/''))
         \<and> ((urlToFilename url_Parse urlStr = []) = (Path u = [] \<or> last (Path u) = CHR ''/'')))
   \<and> (\<forall>cs d'. GatherInfo url_Parse dldr results = (Inr cs, d') \<longrightarrow>
         filename d' = urlToFilename url_Parse (url (hd results))
         \<and> partFilename d' = filename d' @ tmpFileSuffix)"
proof (intro conjI allI impI)
  fix cs d' assume "GatherInfo url_Parse dldr results = (Inr cs, d')"
  from GatherInfo_names[OF this]
  show "filename d' = urlToFilename url_Parse (url (hd results))"
    and "partFilename d' = filename d' @ tmpFileSuffix" by simp_all
next
  assume "url_Parse urlStr = None"
  then show "urlToFilename url_Parse urlStr = ''downloaded-file''"
    by (simp add: urlToFilename_def)
next
  fix u assume u: "url_Parse urlStr = Some u"
  define f where "f = rev (takeWhile (\<lambda>x. x \<noteq> CHR ''/'') (rev (Path u)))"
  define dir where "dir = rev (dropWhile (\<lambda>x. x \<noteq> CHR ''/'') (rev (Path u)))"
  have F: "urlToFilename url_Parse urlStr = f"
    using u by (simp add: urlToFilename_def path_Split_eq f_def)
  have split: "Path u = dir @ f"
  proof -
    have "rev (Path u) = rev f @ rev dir"
      unfolding f_def dir_def by simp
    then have "rev (rev (Path u)) = rev (rev f @ rev dir)" by (rule arg_cong)
    then show ?thesis by simp
  qed
  have nf: "CHR ''/'' \<notin> set f"
    unfolding f_def using set_takeWhileD[of "CHR ''/''" "\<lambda>x. x \<noteq> CHR ''/''" "rev (Path u)"] by auto
  have ld: "dir = [] \<or> last dir = CHR ''/''"
  proof (cases "dropWhile (\<lambda>x. x \<noteq> CHR ''/'') (rev (Path u))")
    case Nil
    then show ?thesis by (simp add: dir_def)
  next
    case (Cons a as)
    then have "a = CHR ''/''" using hd_dropWhile[of "\<lambda>x. x \<noteq> CHR ''/''" "rev (Path u)"] by auto
    then show ?thesis using Cons by (simp add: dir_def)
  qed
  show "CHR ''/'' \<notin> set (urlToFilename url_Parse urlStr)" using nf F by simp
  show "\<exists>dir. Path u = dir @ urlToFilename url_Parse urlStr \<and> (dir = [] \<or> last dir = CHR ''/'')"
    using split ld F by blast
  show "(urlToFilename url_Parse urlStr = []) = (Path u = [] \<or> last (Path u) = CHR ''/'')"
  proof
    assume "urlToFilename url_Parse urlStr = []"
    then have "f = []" using F by simp
    then show "Path u = [] \<or> last (Path u) = CHR ''/''" using split ld by auto
  next
    assume a: "Path u = [] \<or> last (Path u) = CHR ''/''"
    show "urlToFilename url_Parse urlStr = []"
    proof (rule ccontr)
      assume "urlToFilename url_Parse urlStr \<noteq> []"
      then have fne: "f \<noteq> []" using F by simp
      then have "last (Path u) = last f" using split by simp
      moreover have "last f \<in> set f" using fne by simp
      moreover have "Path u \<noteq> []" using split fne by simp
      ultimately show False using a nf by auto
    qed
  qed
qed

theorem urlToFilename_last_segment_witness:
  "simpleUrlParse ''http://example.com/pub/file.iso'' = Some \<lparr>Path = ''/pub/file.iso''\<rparr>
   \<and> urlToFilename simpleUrlParse ''http://example.com/pub/file.iso'' = ''file.iso''
   \<and> simpleUrlParse ''http://a b/'' = None
   \<and> urlToFilename simpleUrlParse ''http://a b/'' = ''downloaded-file''
   \<and> (\<exists>cs d'. GatherInfo simpleUrlParse twoNames secondMirrorFirst = (Inr cs, d')
         \<and> filename d' = ''g.iso'' \<and> partFilename d' = ''g.iso.part'')"
proof -
  obtain cs d' where g: "GatherInfo simpleUrlParse twoNames secondMirrorFirst = (Inr cs, d')"
    by (simp add: GatherInfo_def twoNames_def secondMirrorFirst_def NewMultiDownloader_def
        okProbe_def Let_def buildChunks_def numeral_2_eq_2)
  have "filename d' = urlToFilename simpleUrlParse (url (hd secondMirrorFirst))
         \<and> partFilename d' = filename d' @ tmpFileSuffix"
    using urlToFilename_last_segment[of simpleUrlParse "[]" twoNames secondMirrorFirst] g by blast
  then have c: "filename d' = ''g.iso'' \<and> partFilename d' = ''g.iso.part''"
    by (simp add: secondMirrorFirst_def okProbe_def urlToFilename_def simpleUrlParse_def
        plainChar_def path_Split_def LastIndex_def tmpFileSuffix_def)
  have p: "simpleUrlParse ''http://example.com/pub/file.iso'' = Some \<lparr>Path = ''/pub/file.iso''\<rparr>"
    by (simp add: simpleUrlParse_def plainChar_def)
  have n: "simpleUrlParse ''http://a b/'' = None"
    by (simp add: simpleUrlParse_def plainChar_def)
  have a: "urlToFilename simpleUrlParse ''http://example.com/pub/file.iso'' = ''file.iso''"
    using p by (simp add: urlToFilename_def path_Split_def LastIndex_def)
  have b: "urlToFilename simpleUrlParse ''http://a b/'' = ''downloaded-file''"
    using urlToFilename_last_segment[of simpleUrlParse "''http://a b/''"] n by blast
  show ?thesis using p n a b g c by simp
qed

text \<open>
  Claim C7 as stated fails: a URL whose path ends in a slash parses, so the fallback is not
  used and the derived name is empty; and the name comes from the first result received,
  here the second mirror's.
\<close>

theorem urlToFilename_empty_counterexample:
  "simpleUrlParse ''http://example.com/'' = Some \<lparr>Path = ''/''\<rparr>
   \<and> urlToFilename simpleUrlParse ''http://example.com/'' = ''''
   \<and> hd (urls twoNames) = ''http://a/f.iso''
   \<and> filename (snd (GatherInfo simpleUrlParse twoNames secondMirrorFirst)) = ''g.iso''"
  by (simp add: simpleUrlParse_def plainChar_def urlToFilename_def path_Split_def LastIndex_def
      GatherInfo_def twoNames_def secondMirrorFirst_def NewMultiDownloader_def okProbe_def
      Let_def buildChunks_def wrap64_def smod_int_alt_def signed_divide_int_def numeral_2_eq_2)

section \<open>Properties of the staging file\<close>

text \<open>
  Claim C8. When the operating system lets the staging file be created and resized to the
  agreed length, which is not negative, \<open>SetupFile\<close> creates or overwrites the file named by
  the final name followed by the literal \<open>.part\<close>, gives it exactly the agreed length (zero
  bytes, before any chunk is written) and returns its metadata with that size. A non-empty
  argument becomes the final name and redefines the staging name; with an empty argument
  the names that \<open>GatherInfo\<close> derived are used.
\<close>

theorem SetupFile_presizes_staging_file:
  assumes "name = [] \<longrightarrow> partFilename dldr = filename dldr @ tmpFileSuffix"
    and "0 \<le> MultiDownloader.fileLength dldr"
    and "creatable os ((if name \<noteq> [] then name else filename dldr) @ ''.part'')"
    and "resizable os ((if name \<noteq> [] then name else filename dldr) @ ''.part'')
           (MultiDownloader.fileLength dldr)"
  shows "SetupFile dldr name os =
           (let final = (if name \<noteq> [] then name else filename dldr) in
            (Inr \<lparr>Size = MultiDownloader.fileLength dldr\<rparr>,
             dldr\<lparr>filename := final, partFilename := final @ ''.part''\<rparr>,
             os\<lparr>files := (files os)(final @ ''.part'' \<mapsto>
                    replicate (nat (MultiDownloader.fileLength dldr)) 0)\<rparr>))"
proof (cases "name = []")
  case True
  then have p: "partFilename dldr = filename dldr @ ''.part''"
    using assms(1) by (simp add: tmpFileSuffix_def)
  have d: "dldr\<lparr>filename := filename dldr, partFilename := filename dldr @ ''.part''\<rparr> = dldr"
    using p by simp
  show ?thesis
    using True assms(2,3,4) p d
    by (simp add: SetupFile_def Let_def os_Create_def file_Truncate_def file_Stat_def)
next
  case False
  then show ?thesis
    using assms(2,3,4)
    by (simp add: SetupFile_def Let_def os_Create_def file_Truncate_def file_Stat_def
        tmpFileSuffix_def)
qed

theorem SetupFile_presizes_staging_file_witness:
  "partFilename setupExample = filename setupExample @ tmpFileSuffix
   \<and> 0 \<le> MultiDownloader.fileLength setupExample
   \<and> creatable stagedOs ''out.bin.part''
   \<and> resizable stagedOs ''out.bin.part'' (MultiDownloader.fileLength setupExample)
   \<and> SetupFile setupExample ''out.bin'' stagedOs =
        (Inr \<lparr>Size = 10\<rparr>,
         setupExample\<lparr>filename := ''out.bin'', partFilename := ''out.bin.part''\<rparr>,
         stagedOs\<lparr>files := (files stagedOs)(''out.bin.part'' \<mapsto> replicate 10 0)\<rparr>)
   \<and> fst (SetupFile setupExample [] stagedOs) = Inr \<lparr>Size = 10\<rparr>
   \<and> files (snd (snd (SetupFile setupExample [] stagedOs))) ''f.part'' = Some (replicate 10 0)"
proof -
  have h: "''out.bin'' = [] \<longrightarrow> partFilename setupExample = filename setupExample @ tmpFileSuffix"
    "0 \<le> MultiDownloader.fileLength setupExample"
    "creatable stagedOs ((if ''out.bin'' \<noteq> [] then ''out.bin'' else filename setupExample) @ ''.part'')"
    "resizable stagedOs ((if ''out.bin'' \<noteq> [] then ''out.bin'' else filename setupExample) @ ''.part'')
       (MultiDownloader.fileLength setupExample)"
    by (simp_all add: setupExample_def stagedExample_def stagedOs_def NewMultiDownloader_def)
  have h': "[] = [] \<longrightarrow> partFilename setupExample = filename setupExample @ tmpFileSuffix"
    "creatable stagedOs ((if [] \<noteq> [] then [] else filename setupExample) @ ''.part'')"
    "resizable stagedOs ((if [] \<noteq> [] then [] else filename setupExample) @ ''.part'')
       (MultiDownloader.fileLength setupExample)"
    by (simp_all add: setupExample_def stagedExample_def stagedOs_def NewMultiDownloader_def
        tmpFileSuffix_def)
  have L: "MultiDownloader.fileLength setupExample = 10" "filename setupExample = ''f''"
    by (simp_all add: setupExample_def stagedExample_def NewMultiDownloader_def)
  have a: "SetupFile setupExample ''out.bin'' stagedOs =
        (Inr \<lparr>Size = 10\<rparr>,
         setupExample\<lparr>filename := ''out.bin'', partFilename := ''out.bin.part''\<rparr>,
         stagedOs\<lparr>files := (files stagedOs)(''out.bin.part'' \<mapsto> replicate 10 0)\<rparr>)"
    using SetupFile_presizes_staging_file[OF h] by (simp add: L Let_def)
  have b: "fst (SetupFile setupExample [] stagedOs) = Inr \<lparr>Size = 10\<rparr>
     \<and> files (snd (snd (SetupFile setupExample [] stagedOs))) ''f.part'' = Some (replicate 10 0)"
    using SetupFile_presizes_staging_file[OF h'(1) h(2) h'(2) h'(3)] by (simp add: L Let_def)
  have r: "resizable stagedOs ''out.bin.part'' (MultiDownloader.fileLength setupExample)"
    using h(4) by simp
  show ?thesis using h'(1) h(2,3) r a b by simp
qed

text \<open>
  The error of \<open>Truncate\<close> is overwritten by the result of \<open>Stat\<close> and never tested: when
  the resize fails, for a negative length or one the operating system refuses,
  \<open>SetupFile\<close> returns no error, and the metadata of a staging file of 0 bytes.
\<close>

lemma SetupFile_resize_error_dropped:
  assumes "name = [] \<longrightarrow> partFilename dldr = filename dldr @ tmpFileSuffix"
    and "creatable os ((if name \<noteq> [] then name else filename dldr) @ ''.part'')"
    and "MultiDownloader.fileLength dldr < 0
         \<or> \<not> resizable os ((if name \<noteq> [] then name else filename dldr) @ ''.part'')
               (MultiDownloader.fileLength dldr)"
  shows "SetupFile dldr name os =
           (let final = (if name \<noteq> [] then name else filename dldr) in
            (Inr \<lparr>Size = 0\<rparr>,
             dldr\<lparr>filename := final, partFilename := final @ ''.part''\<rparr>,
             os\<lparr>files := (files os)(final @ ''.part'' \<mapsto> [])\<rparr>))"
proof (cases "name = []")
  case True
  then have p: "partFilename dldr = filename dldr @ ''.part''"
    using assms(1) by (simp add: tmpFileSuffix_def)
  have d: "dldr\<lparr>filename := filename dldr, partFilename := filename dldr @ ''.part''\<rparr> = dldr"
    using p by simp
  show ?thesis
    using True assms(2,3) p d
    by (auto simp: SetupFile_def Let_def os_Create_def file_Truncate_def file_Stat_def)
next
  case False
  then show ?thesis
    using assms(2,3)
    by (auto simp: SetupFile_def Let_def os_Create_def file_Truncate_def file_Stat_def
        tmpFileSuffix_def)
qed

lemma SetupFile_too_large_example:
  "SetupFile (stagedExample\<lparr>MultiDownloader.fileLength := 2 ^ 62\<rparr>) ''out.bin'' stagedOs =
     (Inr \<lparr>Size = 0\<rparr>,
      stagedExample\<lparr>MultiDownloader.fileLength := 2 ^ 62, filename := ''out.bin'',
        partFilename := ''out.bin.part''\<rparr>,
      stagedOs\<lparr>files := (files stagedOs)(''out.bin.part'' \<mapsto> [])\<rparr>)"
  by (simp add: SetupFile_def Let_def os_Create_def file_Truncate_def file_Stat_def
      tmpFileSuffix_def stagedExample_def stagedOs_def NewMultiDownloader_def)

section \<open>Properties of the digest checks\<close>

lemma hashFile_all: "hashFile rest written = written @ rest"
proof (induction rest written rule: hashFile.induct)
  case (1 rest written)
  show ?case
  proof (cases "take fileReadChunk rest = []")
    case True
    then have "rest = []" by (auto simp: fileReadChunk_def)
    then show ?thesis by (subst hashFile.simps) (simp add: Let_def)
  next
    case False
    then have "hashFile rest written = hashFile (drop fileReadChunk rest) (written @ take fileReadChunk rest)"
      by (subst hashFile.simps) (simp add: Let_def)
    also have "\<dots> = (written @ take fileReadChunk rest) @ drop fileReadChunk rest"
      using False by (intro "1.IH") auto
    finally show ?thesis by simp
  qed
qed

lemma hexDigit_lower: "n < 16 \<Longrightarrow> hexDigit n \<in> set ''0123456789abcdef''"
  unfolding hexDigit_def by (rule nth_mem) simp

lemma hexByte_lower: "set (hexByte b) \<subseteq> set ''0123456789abcdef''"
proof -
  have "unat b < 2 ^ 8" using unsigned_less[of b, where 'a = nat] by simp
  then have d: "unat b div 16 < 16" by simp
  have m: "unat b mod 16 < 16" by simp
  have "hexDigit (unat b div 16) \<in> set ''0123456789abcdef''"
    and "hexDigit (unat b mod 16) \<in> set ''0123456789abcdef''"
    using d m by (simp_all only: hexDigit_lower)
  then show ?thesis unfolding hexByte_def by (simp only: set_simps insert_subset empty_subsetI simp_thms)
qed

lemma Sprintf_x_lower: "set (Sprintf_x bs) \<subseteq> set ''0123456789abcdef''"
proof (induction bs)
  case Nil
  then show ?case by (simp add: Sprintf_x_def)
next
  case (Cons b bs)
  have "Sprintf_x (b # bs) = hexByte b @ Sprintf_x bs" by (simp add: Sprintf_x_def)
  then have "set (Sprintf_x (b # bs)) = set (hexByte b) \<union> set (Sprintf_x bs)" by simp
  then show ?case using hexByte_lower[of b] Cons.IH by blast
qed

lemma Sprintf_x_length: "length (Sprintf_x bs) = 2 * length bs"
  by (induction bs) (simp_all add: Sprintf_x_def hexByte_def)

text \<open>
  Claim C6, as amended. For a final file that can be opened, \<open>CheckSHA256\<close> and
  \<open>CheckMD5\<close> render the digest of the whole content as lowercase hexadecimal, two digits
  a byte, and compare it with the caller's string exactly, character by character: they
  return no error when the strings are equal and otherwise an error that carries the
  caller's string and the computed one.
\<close>

theorem CheckDigest_exact_comparison:
  assumes "files os (filename dldr) = Some content"
  shows "CheckSHA256 sha256_Sum dldr os expected =
           (if expected = Sprintf_x (sha256_Sum content) then None
            else Some (DigestMismatch expected (Sprintf_x (sha256_Sum content))))
       \<and> CheckMD5 md5_Sum dldr os expected =
           (if expected = Sprintf_x (md5_Sum content) then None
            else Some (DigestMismatch expected (Sprintf_x (md5_Sum content))))
       \<and> set (Sprintf_x (sha256_Sum content)) \<subseteq> set ''0123456789abcdef''
       \<and> set (Sprintf_x (md5_Sum content)) \<subseteq> set ''0123456789abcdef''
       \<and> length (Sprintf_x (sha256_Sum content)) = 2 * length (sha256_Sum content)
       \<and> length (Sprintf_x (md5_Sum content)) = 2 * length (md5_Sum content)"
proof (intro conjI)
  show "CheckSHA256 sha256_Sum dldr os expected =
           (if expected = Sprintf_x (sha256_Sum content) then None
            else Some (DigestMismatch expected (Sprintf_x (sha256_Sum content))))"
    using assms by (auto simp: CheckSHA256_def Let_def hashFile_all)
  show "CheckMD5 md5_Sum dldr os expected =
           (if expected = Sprintf_x (md5_Sum content) then None
            else Some (DigestMismatch expected (Sprintf_x (md5_Sum content))))"
    using assms by (auto simp: CheckMD5_def Let_def hashFile_all)
  show "set (Sprintf_x (sha256_Sum content)) \<subseteq> set ''0123456789abcdef''"
    by (rule Sprintf_x_lower)
  show "set (Sprintf_x (md5_Sum content)) \<subseteq> set ''0123456789abcdef''"
    by (rule Sprintf_x_lower)
  show "length (Sprintf_x (sha256_Sum content)) = 2 * length (sha256_Sum content)"
    by (rule Sprintf_x_length)
  show "length (Sprintf_x (md5_Sum content)) = 2 * length (md5_Sum content)"
    by (rule Sprintf_x_length)
qed

theorem CheckDigest_exact_comparison_witness:
  "files emptyFileOs (filename stagedExample) = Some []
   \<and> CheckSHA256 sha256AtEmpty stagedExample emptyFileOs
        ''e3b0c44298fc1c149afbf4c8996fb92427ae41e4649b934ca495991b7852b855'' = None
   \<and> CheckMD5 md5AtEmpty stagedExample emptyFileOs ''d41d8cd98f00b204e9800998ecf8427e'' = None
   \<and> CheckMD5 md5AtEmpty stagedExample emptyFileOs ''d41d8cd98f00b204e9800998ecf8427f''
        = Some (DigestMismatch ''d41d8cd98f00b204e9800998ecf8427f''
                               ''d41d8cd98f00b204e9800998ecf8427e'')"
proof -
  have h: "files emptyFileOs (filename stagedExample) = Some []"
    by (simp add: emptyFileOs_def stagedExample_def NewMultiDownloader_def)
  have s: "Sprintf_x (sha256AtEmpty []) =
             ''e3b0c44298fc1c149afbf4c8996fb92427ae41e4649b934ca495991b7852b855''"
    by (simp add: sha256AtEmpty_def sha256OfEmpty_def Sprintf_x_def hexByte_def hexDigit_def)
  have m: "Sprintf_x (md5AtEmpty []) = ''d41d8cd98f00b204e9800998ecf8427e''"
    by (simp add: md5AtEmpty_def md5OfEmpty_def Sprintf_x_def hexByte_def hexDigit_def)
  note T = CheckDigest_exact_comparison[OF h, where sha256_Sum = sha256AtEmpty
      and md5_Sum = md5AtEmpty]
  have a: "CheckSHA256 sha256AtEmpty stagedExample emptyFileOs
        ''e3b0c44298fc1c149afbf4c8996fb92427ae41e4649b934ca495991b7852b855'' = None"
    using T[where expected = "''e3b0c44298fc1c149afbf4c8996fb92427ae41e4649b934ca495991b7852b855''",
        THEN conjunct1]
    unfolding s by simp
  have b: "CheckMD5 md5AtEmpty stagedExample emptyFileOs ''d41d8cd98f00b204e9800998ecf8427e'' = None"
    using T[where expected = "''d41d8cd98f00b204e9800998ecf8427e''", THEN conjunct2, THEN conjunct1]
    unfolding m by simp
  have c: "CheckMD5 md5AtEmpty stagedExample emptyFileOs ''d41d8cd98f00b204e9800998ecf8427f''
        = Some (DigestMismatch ''d41d8cd98f00b204e9800998ecf8427f''
                               ''d41d8cd98f00b204e9800998ecf8427e'')"
    using T[where expected = "''d41d8cd98f00b204e9800998ecf8427f''", THEN conjunct2, THEN conjunct1]
    unfolding m by simp
  show ?thesis using h a b c by simp
qed

text \<open>
  Claim C6 as stated fails: the comparison is case-sensitive. The uppercase rendering of
  the correct digest of the empty file equals the computed digest up to case, and both
  checks reject it.
\<close>

theorem CheckSHA256_uppercase_counterexample:
  "files emptyFileOs (filename stagedExample) = Some []
   \<and> equalFold ''E3B0C44298FC1C149AFBF4C8996FB92427AE41E4649B934CA495991B7852B855''
        (Sprintf_x (sha256AtEmpty []))
   \<and> CheckSHA256 sha256AtEmpty stagedExample emptyFileOs
        ''E3B0C44298FC1C149AFBF4C8996FB92427AE41E4649B934CA495991B7852B855''
      = Some (DigestMismatch
          ''E3B0C44298FC1C149AFBF4C8996FB92427AE41E4649B934CA495991B7852B855''
          ''e3b0c44298fc1c149afbf4c8996fb92427ae41e4649b934ca495991b7852b855'')
   \<and> equalFold ''D41D8CD98F00B204E9800998ECF8427E'' (Sprintf_x (md5AtEmpty []))
   \<and> CheckMD5 md5AtEmpty stagedExample emptyFileOs ''D41D8CD98F00B204E9800998ECF8427E''
      = Some (DigestMismatch ''D41D8CD98F00B204E9800998ECF8427E''
                             ''d41d8cd98f00b204e9800998ecf8427e'')"
proof -
  have h: "files emptyFileOs (filename stagedExample) = Some []"
    by (simp add: emptyFileOs_def stagedExample_def NewMultiDownloader_def)
  have hf: "hashFile [] [] = []"
    by (simp add: hashFile_all)
  have s: "Sprintf_x (sha256AtEmpty []) =
             ''e3b0c44298fc1c149afbf4c8996fb92427ae41e4649b934ca495991b7852b855''"
    by (simp add: sha256AtEmpty_def sha256OfEmpty_def Sprintf_x_def hexByte_def hexDigit_def)
  have m: "Sprintf_x (md5AtEmpty []) = ''d41d8cd98f00b204e9800998ecf8427e''"
    by (simp add: md5AtEmpty_def md5OfEmpty_def Sprintf_x_def hexByte_def hexDigit_def)
  have e1: "equalFold ''E3B0C44298FC1C149AFBF4C8996FB92427AE41E4649B934CA495991B7852B855''
        (Sprintf_x (sha256AtEmpty []))"
    unfolding s by (simp add: equalFold_def asciiLower_def)
  have e2: "equalFold ''D41D8CD98F00B204E9800998ECF8427E'' (Sprintf_x (md5AtEmpty []))"
    unfolding m by (simp add: equalFold_def asciiLower_def)
  have c1: "CheckSHA256 sha256AtEmpty stagedExample emptyFileOs
        ''E3B0C44298FC1C149AFBF4C8996FB92427AE41E4649B934CA495991B7852B855''
      = Some (DigestMismatch
          ''E3B0C44298FC1C149AFBF4C8996FB92427AE41E4649B934CA495991B7852B855''
          ''e3b0c44298fc1c149afbf4c8996fb92427ae41e4649b934ca495991b7852b855'')"
    using h by (simp add: CheckSHA256_def Let_def hf s)
  have c2: "CheckMD5 md5AtEmpty stagedExample emptyFileOs ''D41D8CD98F00B204E9800998ECF8427E''
      = Some (DigestMismatch ''D41D8CD98F00B204E9800998ECF8427E''
                             ''d41d8cd98f00b204e9800998ecf8427e'')"
    using h by (simp add: CheckMD5_def Let_def hf m)
  show ?thesis using h e1 e2 c1 c2 by simp
qed

end
